theory Spec2Isabelle
  imports Complex_Main "HOL-Library.Multiset"
begin

section \<open>Boids flocking kernels (src/src/kernel.cu)\<close>

text \<open>
  A shallow embedding of the simulation kernels of \<^verbatim>\<open>kernel.cu\<close>.

  \<^item> A \<^verbatim>\<open>float\<close> is idealised as a \<^typ>\<open>real\<close>: rounding is not modelled. A division
    by zero, which in IEEE arithmetic produces a NaN or an infinity and never traps, is
    an explicit branch of the model: the computation yields \<open>Inl NonFinite\<close>.
  \<^item> An \<^verbatim>\<open>int\<close> is an \<^typ>\<open>int\<close>; with the grid of \<^verbatim>\<open>Boids::initSimulation\<close>
    (22 cells per axis) no value comes near \<open>2 ^ 31\<close>.
  \<^item> A device buffer is a list. A read or write outside the buffer, undefined behaviour
    on the device, yields \<open>Inl OutOfBounds\<close>.
  \<^item> A kernel launch runs the kernel body once per thread id, one thread after the
    other. Most kernels here write only the slot of their own thread; the scattered
    velocity kernel writes the slot of the agent its thread stands for, and the bucket
    locator writes the entry of the cell at a run boundary, which on sorted keys no
    other thread writes.
  \<^item> \<^verbatim>\<open>checkCUDAError\<close> aborts the process when a kernel fails: a step whose kernel
    yields an error yields that error.
\<close>

subsection \<open>Results and buffers\<close>

datatype error = OutOfBounds | NonFinite

definition bindE :: "error + 'a \<Rightarrow> ('a \<Rightarrow> error + 'b) \<Rightarrow> error + 'b" where
  "bindE m f = (case m of Inl e \<Rightarrow> Inl e | Inr x \<Rightarrow> f x)"

definition rd :: "'a list \<Rightarrow> int \<Rightarrow> error + 'a" where
  "rd xs i = (if 0 \<le> i \<and> i < int (length xs) then Inr (xs ! nat i) else Inl OutOfBounds)"

definition wr :: "'a list \<Rightarrow> int \<Rightarrow> 'a \<Rightarrow> error + 'a list" where
  "wr xs i v = (if 0 \<le> i \<and> i < int (length xs) then Inr (xs[nat i := v]) else Inl OutOfBounds)"

subsection \<open>glm::vec3\<close>

datatype vec3 = Vec3 (vx: real) (vy: real) (vz: real)

definition vzero :: vec3 where
  "vzero = Vec3 0 0 0"

definition vadd :: "vec3 \<Rightarrow> vec3 \<Rightarrow> vec3" where
  "vadd a b = Vec3 (vx a + vx b) (vy a + vy b) (vz a + vz b)"

definition vsub :: "vec3 \<Rightarrow> vec3 \<Rightarrow> vec3" where
  "vsub a b = Vec3 (vx a - vx b) (vy a - vy b) (vz a - vz b)"

definition vscale :: "vec3 \<Rightarrow> real \<Rightarrow> vec3" where
  "vscale a s = Vec3 (vx a * s) (vy a * s) (vz a * s)"

definition vdivs :: "vec3 \<Rightarrow> real \<Rightarrow> error + vec3" where
  "vdivs a s = (if s = 0 then Inl NonFinite else Inr (Vec3 (vx a / s) (vy a / s) (vz a / s)))"

definition dot :: "vec3 \<Rightarrow> vec3 \<Rightarrow> real" where
  "dot a b = vx a * vx b + vy a * vy b + vz a * vz b"

definition vlength :: "vec3 \<Rightarrow> real" where
  "vlength a = sqrt (dot a a)"

definition distance :: "vec3 \<Rightarrow> vec3 \<Rightarrow> real" where
  "distance p0 p1 = vlength (vsub p1 p0)"

subsection \<open>Configuration\<close>

definition blockSize :: nat where "blockSize = 128"

definition rule1Distance :: real where "rule1Distance = 5"
definition rule2Distance :: real where "rule2Distance = 3"
definition rule3Distance :: real where "rule3Distance = 5"

definition rule1Scale :: real where "rule1Scale = 1 / 100"
definition rule2Scale :: real where "rule2Scale = 1 / 10"
definition rule3Scale :: real where "rule3Scale = 1 / 10"

definition maxSpeed :: real where "maxSpeed = 1"

definition scene_scale :: real where "scene_scale = 100"

subsection \<open>Kernel launches\<close>

definition fullBlocksPerGrid :: "nat \<Rightarrow> nat" where
  "fullBlocksPerGrid N = (N + blockSize - 1) div blockSize"

definition threadIds :: "nat \<Rightarrow> nat list" where
  "threadIds N = [0..<fullBlocksPerGrid N * blockSize]"

fun launch :: "nat list \<Rightarrow> (nat \<Rightarrow> 's \<Rightarrow> error + 's) \<Rightarrow> 's \<Rightarrow> error + 's" where
  "launch [] body s = Inr s"
| "launch (t # ts) body s = (case body t s of Inl e \<Rightarrow> Inl e | Inr s' \<Rightarrow> launch ts body s')"

subsection \<open>The three flocking rules\<close>

record rules =
  rule1 :: vec3
  rule2 :: vec3
  rule3 :: vec3
  rule1Cnt :: real
  rule3Cnt :: real

definition rules0 :: rules where
  "rules0 = \<lparr>rule1 = vzero, rule2 = vzero, rule3 = vzero, rule1Cnt = 0, rule3Cnt = 0\<rparr>"

text \<open>
  The body of the neighbour loop: the three radius tests on one candidate. The source
  repeats these lines in \<^verbatim>\<open>computeVelocityChange\<close> and in both grid kernels.
\<close>

definition visit :: "vec3 \<Rightarrow> vec3 \<Rightarrow> vec3 \<Rightarrow> rules \<Rightarrow> rules" where
  "visit myPos nPos nVel r =
     (let dist = distance nPos myPos;
          r = (if dist < rule1Distance
               then r\<lparr>rule1 := vadd (rule1 r) nPos, rule1Cnt := rule1Cnt r + 1\<rparr> else r);
          r = (if dist < rule2Distance
               then r\<lparr>rule2 := vadd (rule2 r) (vsub myPos nPos)\<rparr> else r);
          r = (if dist < rule3Distance
               then r\<lparr>rule3 := vadd (rule3 r) nVel, rule3Cnt := rule3Cnt r + 1\<rparr> else r)
      in r)"

text \<open>
  The lines after the loop: \<^verbatim>\<open>rule1 /= rule1Cnt; rule1 = (rule1 - myPos) * rule1Scale;
  rule2 *= rule2Scale; rule3 = rule3 / rule3Cnt * rule3Scale;\<close>. The result is the triple
  of the three contributions.
\<close>

definition scaleRules :: "vec3 \<Rightarrow> rules \<Rightarrow> error + (vec3 \<times> vec3 \<times> vec3)" where
  "scaleRules myPos r =
     bindE (vdivs (rule1 r) (rule1Cnt r)) (\<lambda>avg1.
     bindE (vdivs (rule3 r) (rule3Cnt r)) (\<lambda>avg3.
       Inr (vscale (vsub avg1 myPos) rule1Scale,
            vscale (rule2 r) rule2Scale,
            vscale avg3 rule3Scale)))"

definition sumRules :: "vec3 \<times> vec3 \<times> vec3 \<Rightarrow> vec3" where
  "sumRules c = (case c of (c1, c2, c3) \<Rightarrow> vadd (vadd c1 c2) c3)"

subsection \<open>Brute force\<close>

fun neighborLoop :: "nat list \<Rightarrow> vec3 list \<Rightarrow> vec3 list \<Rightarrow> vec3 \<Rightarrow> rules \<Rightarrow> error + rules" where
  "neighborLoop [] pos vel myPos r = Inr r"
| "neighborLoop (i # is) pos vel myPos r =
     bindE (rd pos (int i)) (\<lambda>nPos.
     bindE (rd vel (int i)) (\<lambda>nVel.
       neighborLoop is pos vel myPos (visit myPos nPos nVel r)))"

definition computeVelocityChange :: "nat \<Rightarrow> nat \<Rightarrow> vec3 list \<Rightarrow> vec3 list \<Rightarrow> error + vec3" where
  "computeVelocityChange N iSelf pos vel =
     bindE (rd vel (int iSelf)) (\<lambda>myVel.
     bindE (rd pos (int iSelf)) (\<lambda>myPos.
     bindE (neighborLoop [0..<N] pos vel myPos rules0) (\<lambda>r.
     bindE (scaleRules myPos r) (\<lambda>c. Inr (sumRules c)))))"

text \<open>The speed clamp: \<^verbatim>\<open>speed > maxSpeed ? (newVel / speed * maxSpeed) : newVel\<close>.\<close>

definition clampSpeed :: "vec3 \<Rightarrow> error + vec3" where
  "clampSpeed newVel =
     (let speed = vlength newVel
      in if speed > maxSpeed
         then bindE (vdivs newVel speed) (\<lambda>d. Inr (vscale d maxSpeed))
         else Inr newVel)"

definition kernUpdateVelocityBruteForce_thread ::
  "nat \<Rightarrow> vec3 list \<Rightarrow> vec3 list \<Rightarrow> nat \<Rightarrow> vec3 list \<Rightarrow> error + vec3 list" where
  "kernUpdateVelocityBruteForce_thread N pos vel1 iSelf vel2 =
     (if iSelf \<ge> N then Inr vel2
      else bindE (rd vel1 (int iSelf)) (\<lambda>v.
           bindE (computeVelocityChange N iSelf pos vel1) (\<lambda>dv.
           bindE (clampSpeed (vadd v dv)) (\<lambda>newVel.
             wr vel2 (int iSelf) newVel))))"

definition kernUpdateVelocityBruteForce ::
  "nat \<Rightarrow> vec3 list \<Rightarrow> vec3 list \<Rightarrow> vec3 list \<Rightarrow> error + vec3 list" where
  "kernUpdateVelocityBruteForce N pos vel1 vel2 =
     launch (threadIds N) (kernUpdateVelocityBruteForce_thread N pos vel1) vel2"

subsection \<open>Position integration\<close>

definition wrap :: "real \<Rightarrow> real" where
  "wrap c =
     (let c = (if c < - scene_scale then scene_scale else c)
      in if c > scene_scale then - scene_scale else c)"

definition kernUpdatePos_thread ::
  "nat \<Rightarrow> real \<Rightarrow> vec3 list \<Rightarrow> nat \<Rightarrow> vec3 list \<Rightarrow> error + vec3 list" where
  "kernUpdatePos_thread N dt vel index pos =
     (if index \<ge> N then Inr pos
      else bindE (rd pos (int index)) (\<lambda>thisPos.
           bindE (rd vel (int index)) (\<lambda>v.
             let thisPos = vadd thisPos (vscale v dt)
             in wr pos (int index)
                  (Vec3 (wrap (vx thisPos)) (wrap (vy thisPos)) (wrap (vz thisPos))))))"

definition kernUpdatePos :: "nat \<Rightarrow> real \<Rightarrow> vec3 list \<Rightarrow> vec3 list \<Rightarrow> error + vec3 list" where
  "kernUpdatePos N dt pos vel = launch (threadIds N) (kernUpdatePos_thread N dt vel) pos"

subsection \<open>Uniform grid\<close>

definition gridIndex3Dto1D :: "int \<Rightarrow> int \<Rightarrow> int \<Rightarrow> int \<Rightarrow> int" where
  "gridIndex3Dto1D x y z gridResolution =
     x + y * gridResolution + z * gridResolution * gridResolution"

text \<open>The conversion \<^verbatim>\<open>int(f)\<close> of a float: truncation toward zero.\<close>

definition float2int :: "real \<Rightarrow> int" where
  "float2int f = (if 0 \<le> f then \<lfloor>f\<rfloor> else \<lceil>f\<rceil>)"

text \<open>\<^verbatim>\<open>glm::clamp(x, minVal, maxVal)\<close> is \<^verbatim>\<open>min(max(x, minVal), maxVal)\<close>, per component.\<close>

definition clampf :: "real \<Rightarrow> real \<Rightarrow> real \<Rightarrow> real" where
  "clampf x minVal maxVal = min (max x minVal) maxVal"

definition vsplat :: "real \<Rightarrow> vec3" where
  "vsplat a = Vec3 a a a"

definition vclamp :: "vec3 \<Rightarrow> vec3 \<Rightarrow> vec3 \<Rightarrow> vec3" where
  "vclamp a lo hi =
     Vec3 (clampf (vx a) (vx lo) (vx hi)) (clampf (vy a) (vy lo) (vy hi))
          (clampf (vz a) (vz lo) (vz hi))"

text \<open>
  The cell coordinates of a position. The source repeats these lines in
  \<^verbatim>\<open>kernComputeIndices\<close> and in both neighbour-search kernels.
\<close>

definition gridCoords :: "int \<Rightarrow> vec3 \<Rightarrow> real \<Rightarrow> vec3 \<Rightarrow> int \<times> int \<times> int" where
  "gridCoords gridResolution gridMin inverseCellWidth myPos =
     (let gridId = vscale (vsub myPos gridMin) inverseCellWidth;
          gridId = vclamp (vsub gridId (vsplat (1 / 2))) (vsplat 0)
                     (vsplat (of_int gridResolution))
      in (float2int (vx gridId), float2int (vy gridId), float2int (vz gridId)))"

definition kernComputeIndices_thread ::
  "nat \<Rightarrow> int \<Rightarrow> vec3 \<Rightarrow> real \<Rightarrow> vec3 list \<Rightarrow> nat \<Rightarrow> int list \<times> int list
     \<Rightarrow> error + int list \<times> int list" where
  "kernComputeIndices_thread N gridResolution gridMin inverseCellWidth pos iSelf bufs =
     (case bufs of (indices, gridIndices) \<Rightarrow>
      if iSelf \<ge> N then Inr (indices, gridIndices)
      else bindE (rd pos (int iSelf)) (\<lambda>myPos.
           case gridCoords gridResolution gridMin inverseCellWidth myPos of (x, y, z) \<Rightarrow>
           bindE (wr indices (int iSelf) (int iSelf)) (\<lambda>indices.
           bindE (wr gridIndices (int iSelf) (gridIndex3Dto1D x y z gridResolution))
             (\<lambda>gridIndices. Inr (indices, gridIndices)))))"

definition kernComputeIndices ::
  "nat \<Rightarrow> int \<Rightarrow> vec3 \<Rightarrow> real \<Rightarrow> vec3 list \<Rightarrow> int list \<times> int list
     \<Rightarrow> error + int list \<times> int list" where
  "kernComputeIndices N gridResolution gridMin inverseCellWidth pos bufs =
     launch (threadIds N)
       (kernComputeIndices_thread N gridResolution gridMin inverseCellWidth pos) bufs"

definition kernResetIntBuffer_thread :: "nat \<Rightarrow> int \<Rightarrow> nat \<Rightarrow> int list \<Rightarrow> error + int list" where
  "kernResetIntBuffer_thread N val index intBuffer =
     (if index < N then wr intBuffer (int index) val else Inr intBuffer)"

definition kernResetIntBuffer :: "nat \<Rightarrow> int list \<Rightarrow> int \<Rightarrow> error + int list" where
  "kernResetIntBuffer N intBuffer val =
     launch (threadIds N) (kernResetIntBuffer_thread N val) intBuffer"

definition kernIdentifyCellStartEnd_thread ::
  "nat \<Rightarrow> int list \<Rightarrow> nat \<Rightarrow> int list \<times> int list \<Rightarrow> error + int list \<times> int list" where
  "kernIdentifyCellStartEnd_thread N particleGridIndices index bufs =
     (case bufs of (gridCellStartIndices, gridCellEndIndices) \<Rightarrow>
      if N \<le> index then Inr (gridCellStartIndices, gridCellEndIndices)
      else bindE (rd particleGridIndices (int index)) (\<lambda>curGrid.
           bindE (if index = 0 then Inr True
                  else bindE (rd particleGridIndices (int index - 1))
                         (\<lambda>g. Inr (g \<noteq> curGrid))) (\<lambda>isStart.
           bindE (if index + 1 = N then Inr True
                  else bindE (rd particleGridIndices (int index + 1))
                         (\<lambda>g. Inr (g \<noteq> curGrid))) (\<lambda>isEnd.
           bindE (if isStart then wr gridCellStartIndices curGrid (int index)
                  else Inr gridCellStartIndices) (\<lambda>gridCellStartIndices.
           bindE (if isEnd then wr gridCellEndIndices curGrid (int index + 1)
                  else Inr gridCellEndIndices) (\<lambda>gridCellEndIndices.
             Inr (gridCellStartIndices, gridCellEndIndices)))))))"

definition kernIdentifyCellStartEnd ::
  "nat \<Rightarrow> int list \<Rightarrow> int list \<times> int list \<Rightarrow> error + int list \<times> int list" where
  "kernIdentifyCellStartEnd N particleGridIndices bufs =
     launch (threadIds N) (kernIdentifyCellStartEnd_thread N particleGridIndices) bufs"

subsection \<open>Neighbour search on the grid\<close>

text \<open>The offset arrays \<^verbatim>\<open>dx\<close>, \<^verbatim>\<open>dy\<close>, \<^verbatim>\<open>dz\<close>, zipped.\<close>

definition neighborOffsets :: "(int \<times> int \<times> int) list" where
  "neighborOffsets =
     [(0, 0, 0), (1, 0, 0), (0, 1, 0), (1, 1, 0), (0, 0, 1), (1, 0, 1), (0, 1, 1), (1, 1, 1)]"

text \<open>The inner loop over the slots \<open>j\<close> of one cell, through the permutation table.\<close>

fun slotLoopScattered ::
  "int list \<Rightarrow> int list \<Rightarrow> vec3 list \<Rightarrow> vec3 list \<Rightarrow> vec3 \<Rightarrow> rules \<Rightarrow> error + rules" where
  "slotLoopScattered [] particleArrayIndices pos vel1 myPos r = Inr r"
| "slotLoopScattered (j # js) particleArrayIndices pos vel1 myPos r =
     bindE (rd particleArrayIndices j) (\<lambda>nBoidId.
     bindE (rd pos nBoidId) (\<lambda>nPos.
     bindE (rd vel1 nBoidId) (\<lambda>nVel.
       slotLoopScattered js particleArrayIndices pos vel1 myPos (visit myPos nPos nVel r))))"

text \<open>The same loop of the coherent kernel: the slot is the index.\<close>

fun slotLoopCoherent ::
  "int list \<Rightarrow> vec3 list \<Rightarrow> vec3 list \<Rightarrow> vec3 \<Rightarrow> rules \<Rightarrow> error + rules" where
  "slotLoopCoherent [] pos vel1 myPos r = Inr r"
| "slotLoopCoherent (j # js) pos vel1 myPos r =
     bindE (rd pos j) (\<lambda>nPos.
     bindE (rd vel1 j) (\<lambda>nVel.
       slotLoopCoherent js pos vel1 myPos (visit myPos nPos nVel r)))"

text \<open>
  The outer loop over the eight offset cells, the same in both grid kernels; \<open>slots\<close>
  is the kernel's inner loop.
\<close>

fun cellLoop ::
  "(int list \<Rightarrow> rules \<Rightarrow> error + rules) \<Rightarrow> (int \<times> int \<times> int) list \<Rightarrow> int
     \<Rightarrow> int \<times> int \<times> int \<Rightarrow> int list \<Rightarrow> int list \<Rightarrow> rules \<Rightarrow> error + rules" where
  "cellLoop slots [] gridResolution g gridCellStartIndices gridCellEndIndices r = Inr r"
| "cellLoop slots (d # ds) gridResolution g gridCellStartIndices gridCellEndIndices r =
     (case d of (dx, dy, dz) \<Rightarrow> case g of (gridX, gridY, gridZ) \<Rightarrow>
      let nGridX = dx + gridX; nGridY = dy + gridY; nGridZ = dz + gridZ
      in if nGridX \<ge> gridResolution \<or> nGridY \<ge> gridResolution \<or> nGridZ \<ge> gridResolution
         then cellLoop slots ds gridResolution g gridCellStartIndices gridCellEndIndices r
         else let nGridId = gridIndex3Dto1D nGridX nGridY nGridZ gridResolution
              in bindE (rd gridCellStartIndices nGridId) (\<lambda>startThreadId.
                 bindE (rd gridCellEndIndices nGridId) (\<lambda>endThreadId.
                 bindE (slots [startThreadId..endThreadId - 1] r) (\<lambda>r.
                   cellLoop slots ds gridResolution g
                     gridCellStartIndices gridCellEndIndices r))))"

definition kernUpdateVelNeighborSearchScattered_thread ::
  "nat \<Rightarrow> int \<Rightarrow> vec3 \<Rightarrow> real \<Rightarrow> real \<Rightarrow> int list \<Rightarrow> int list \<Rightarrow> int list
     \<Rightarrow> vec3 list \<Rightarrow> vec3 list \<Rightarrow> nat \<Rightarrow> vec3 list \<Rightarrow> error + vec3 list" where
  "kernUpdateVelNeighborSearchScattered_thread N gridResolution gridMin inverseCellWidth
     cellWidth gridCellStartIndices gridCellEndIndices particleArrayIndices pos vel1 iSelf vel2 =
     (if iSelf \<ge> N then Inr vel2
      else bindE (rd particleArrayIndices (int iSelf)) (\<lambda>boidId.
           bindE (rd pos boidId) (\<lambda>myPos.
           bindE (cellLoop (\<lambda>js. slotLoopScattered js particleArrayIndices pos vel1 myPos)
                    neighborOffsets gridResolution
                    (gridCoords gridResolution gridMin inverseCellWidth myPos)
                    gridCellStartIndices gridCellEndIndices rules0) (\<lambda>r.
           bindE (scaleRules myPos r) (\<lambda>c. case c of (c1, c2, c3) \<Rightarrow>
           bindE (rd vel1 boidId) (\<lambda>v.
           bindE (clampSpeed (vadd (vadd (vadd v c1) c2) c3)) (\<lambda>newVel.
             wr vel2 boidId newVel)))))))"

definition kernUpdateVelNeighborSearchScattered ::
  "nat \<Rightarrow> int \<Rightarrow> vec3 \<Rightarrow> real \<Rightarrow> real \<Rightarrow> int list \<Rightarrow> int list \<Rightarrow> int list
     \<Rightarrow> vec3 list \<Rightarrow> vec3 list \<Rightarrow> vec3 list \<Rightarrow> error + vec3 list" where
  "kernUpdateVelNeighborSearchScattered N gridResolution gridMin inverseCellWidth cellWidth
     gridCellStartIndices gridCellEndIndices particleArrayIndices pos vel1 vel2 =
     launch (threadIds N)
       (kernUpdateVelNeighborSearchScattered_thread N gridResolution gridMin inverseCellWidth
          cellWidth gridCellStartIndices gridCellEndIndices particleArrayIndices pos vel1) vel2"

definition kernUpdateVelNeighborSearchCoherent_thread ::
  "nat \<Rightarrow> int \<Rightarrow> vec3 \<Rightarrow> real \<Rightarrow> real \<Rightarrow> int list \<Rightarrow> int list
     \<Rightarrow> vec3 list \<Rightarrow> vec3 list \<Rightarrow> nat \<Rightarrow> vec3 list \<Rightarrow> error + vec3 list" where
  "kernUpdateVelNeighborSearchCoherent_thread N gridResolution gridMin inverseCellWidth
     cellWidth gridCellStartIndices gridCellEndIndices pos vel1 boidId vel2 =
     (if boidId \<ge> N then Inr vel2
      else bindE (rd pos (int boidId)) (\<lambda>myPos.
           bindE (cellLoop (\<lambda>js. slotLoopCoherent js pos vel1 myPos)
                    neighborOffsets gridResolution
                    (gridCoords gridResolution gridMin inverseCellWidth myPos)
                    gridCellStartIndices gridCellEndIndices rules0) (\<lambda>r.
           bindE (scaleRules myPos r) (\<lambda>c. case c of (c1, c2, c3) \<Rightarrow>
           bindE (rd vel1 (int boidId)) (\<lambda>v.
           bindE (clampSpeed (vadd (vadd (vadd v c1) c2) c3)) (\<lambda>newVel.
             wr vel2 (int boidId) newVel))))))"

definition kernUpdateVelNeighborSearchCoherent ::
  "nat \<Rightarrow> int \<Rightarrow> vec3 \<Rightarrow> real \<Rightarrow> real \<Rightarrow> int list \<Rightarrow> int list
     \<Rightarrow> vec3 list \<Rightarrow> vec3 list \<Rightarrow> vec3 list \<Rightarrow> error + vec3 list" where
  "kernUpdateVelNeighborSearchCoherent N gridResolution gridMin inverseCellWidth cellWidth
     gridCellStartIndices gridCellEndIndices pos vel1 vel2 =
     launch (threadIds N)
       (kernUpdateVelNeighborSearchCoherent_thread N gridResolution gridMin inverseCellWidth
          cellWidth gridCellStartIndices gridCellEndIndices pos vel1) vel2"

text \<open>\<^verbatim>\<open>kernRearrangeArray\<close>: \<^verbatim>\<open>pos2[iSelf] = pos[destId]; vel1[iSelf] = vel2[destId]\<close>.\<close>

definition kernRearrangeArray_thread ::
  "nat \<Rightarrow> int list \<Rightarrow> vec3 list \<Rightarrow> vec3 list \<Rightarrow> nat \<Rightarrow> vec3 list \<times> vec3 list
     \<Rightarrow> error + vec3 list \<times> vec3 list" where
  "kernRearrangeArray_thread N particleArrayIndices pos vel2 iSelf bufs =
     (case bufs of (pos2, vel1) \<Rightarrow>
      if iSelf \<ge> N then Inr (pos2, vel1)
      else bindE (rd particleArrayIndices (int iSelf)) (\<lambda>destId.
           bindE (rd pos destId) (\<lambda>p.
           bindE (wr pos2 (int iSelf) p) (\<lambda>pos2.
           bindE (rd vel2 destId) (\<lambda>v.
           bindE (wr vel1 (int iSelf) v) (\<lambda>vel1. Inr (pos2, vel1)))))))"

definition kernRearrangeArray ::
  "nat \<Rightarrow> int list \<Rightarrow> vec3 list \<Rightarrow> vec3 list \<Rightarrow> vec3 list \<times> vec3 list
     \<Rightarrow> error + vec3 list \<times> vec3 list" where
  "kernRearrangeArray N particleArrayIndices pos vel2 bufs =
     launch (threadIds N) (kernRearrangeArray_thread N particleArrayIndices pos vel2) bufs"

subsection \<open>The host side\<close>

text \<open>
  \<^verbatim>\<open>thrust::sort_by_key\<close> is a library routine: it sorts the first \<open>N\<close> keys ascending
  and permutes the first \<open>N\<close> values along with them. It is modelled by a stable sort of
  the key-value pairs.
\<close>

definition sort_by_key :: "nat \<Rightarrow> int list \<Rightarrow> int list \<Rightarrow> error + int list \<times> int list" where
  "sort_by_key N keys vals =
     (if N \<le> length keys \<and> N \<le> length vals
      then let ps = sort_key fst (zip (take N keys) (take N vals))
           in Inr (map fst ps @ drop N keys, map snd ps @ drop N vals)
      else Inl OutOfBounds)"

record sim =
  numObjects :: nat
  dev_pos :: "vec3 list"
  dev_pos2 :: "vec3 list"
  dev_vel1 :: "vec3 list"
  dev_vel2 :: "vec3 list"
  dev_particleArrayIndices :: "int list"
  dev_particleGridIndices :: "int list"
  dev_gridCellStartIndices :: "int list"
  dev_gridCellEndIndices :: "int list"
  gridCellCount :: int
  gridSideCount :: int
  gridCellWidth :: real
  gridInverseCellWidth :: real
  gridMinimum :: vec3

text \<open>
  \<^verbatim>\<open>Boids::initSimulation\<close> derives the grid from the rule distances. Its argument \<open>mem\<close>
  stands for the memory before the call: the buffers as \<^verbatim>\<open>cudaMalloc\<close> and the random
  position generator leave them, and the global \<^verbatim>\<open>gridMinimum\<close>.
\<close>

definition initSimulation :: "nat \<Rightarrow> sim \<Rightarrow> sim" where
  "initSimulation N mem =
     (let cellWidth = 2 * max (max rule1Distance rule2Distance) rule3Distance;
          halfSideCount = float2int (scene_scale / cellWidth) + 1;
          sideCount = 2 * halfSideCount;
          halfGridWidth = cellWidth * of_int halfSideCount
      in mem\<lparr>numObjects := N,
              gridCellWidth := cellWidth,
              gridSideCount := sideCount,
              gridCellCount := sideCount * sideCount * sideCount,
              gridInverseCellWidth := 1 / cellWidth,
              gridMinimum := vsub (gridMinimum mem) (vsplat halfGridWidth)\<rparr>)"

text \<open>The buffer sizes of \<^verbatim>\<open>Boids::initSimulation\<close>.\<close>

definition allocated :: "sim \<Rightarrow> bool" where
  "allocated s \<longleftrightarrow>
     length (dev_pos s) = numObjects s \<and> length (dev_pos2 s) = numObjects s \<and>
     length (dev_vel1 s) = numObjects s \<and> length (dev_vel2 s) = numObjects s \<and>
     length (dev_particleArrayIndices s) = numObjects s \<and>
     length (dev_particleGridIndices s) = numObjects s \<and>
     int (length (dev_gridCellStartIndices s)) = gridCellCount s \<and>
     int (length (dev_gridCellEndIndices s)) = gridCellCount s"

definition stepSimulationNaive :: "real \<Rightarrow> sim \<Rightarrow> error + sim" where
  "stepSimulationNaive dt s =
     bindE (kernUpdateVelocityBruteForce (numObjects s) (dev_pos s) (dev_vel1 s) (dev_vel2 s))
       (\<lambda>vel2.
     bindE (kernUpdatePos (numObjects s) dt (dev_pos s) vel2) (\<lambda>pos.
       Inr (s\<lparr>dev_pos := pos, dev_vel1 := vel2, dev_vel2 := dev_vel1 s\<rparr>)))"

definition stepSimulationScatteredGrid :: "real \<Rightarrow> sim \<Rightarrow> error + sim" where
  "stepSimulationScatteredGrid dt s =
     (let N = numObjects s; gridResolution = gridSideCount s; gridMin = gridMinimum s;
          inverseCellWidth = gridInverseCellWidth s; cellWidth = gridCellWidth s
      in bindE (kernComputeIndices N gridResolution gridMin inverseCellWidth (dev_pos s)
                  (dev_particleArrayIndices s, dev_particleGridIndices s))
           (\<lambda>b. case b of (indices, gridIndices) \<Rightarrow>
         bindE (sort_by_key N gridIndices indices)
           (\<lambda>b. case b of (gridIndices, indices) \<Rightarrow>
         bindE (kernIdentifyCellStartEnd N gridIndices
                  (dev_gridCellStartIndices s, dev_gridCellEndIndices s))
           (\<lambda>b. case b of (starts, ends) \<Rightarrow>
         bindE (kernUpdateVelNeighborSearchScattered N gridResolution gridMin inverseCellWidth
                  cellWidth starts ends indices (dev_pos s) (dev_vel1 s) (dev_vel2 s))
           (\<lambda>vel2.
         bindE (kernUpdatePos N dt (dev_pos s) vel2) (\<lambda>pos.
           Inr (s\<lparr>dev_pos := pos, dev_vel1 := vel2, dev_vel2 := dev_vel1 s,
                  dev_particleArrayIndices := indices, dev_particleGridIndices := gridIndices,
                  dev_gridCellStartIndices := starts, dev_gridCellEndIndices := ends\<rparr>)))))))"

definition stepSimulationCoherentGrid :: "real \<Rightarrow> sim \<Rightarrow> error + sim" where
  "stepSimulationCoherentGrid dt s =
     (let N = numObjects s; gridResolution = gridSideCount s; gridMin = gridMinimum s;
          inverseCellWidth = gridInverseCellWidth s; cellWidth = gridCellWidth s
      in bindE (kernComputeIndices N gridResolution gridMin inverseCellWidth (dev_pos s)
                  (dev_particleArrayIndices s, dev_particleGridIndices s))
           (\<lambda>b. case b of (indices, gridIndices) \<Rightarrow>
         bindE (sort_by_key N gridIndices indices)
           (\<lambda>b. case b of (gridIndices, indices) \<Rightarrow>
         bindE (kernIdentifyCellStartEnd N gridIndices
                  (dev_gridCellStartIndices s, dev_gridCellEndIndices s))
           (\<lambda>b. case b of (starts, ends) \<Rightarrow>
         bindE (kernRearrangeArray N indices (dev_pos s) (dev_vel1 s)
                  (dev_pos2 s, dev_vel2 s))
           (\<lambda>b. case b of (pos2, vel2) \<Rightarrow>
         bindE (kernUpdateVelNeighborSearchCoherent N gridResolution gridMin inverseCellWidth
                  cellWidth starts ends pos2 vel2 (dev_vel1 s))
           (\<lambda>vel1.
         bindE (kernUpdatePos N dt pos2 vel1) (\<lambda>pos2.
           Inr (s\<lparr>dev_pos := pos2, dev_pos2 := dev_pos s, dev_vel1 := vel1, dev_vel2 := vel2,
                  dev_particleArrayIndices := indices, dev_particleGridIndices := gridIndices,
                  dev_gridCellStartIndices := starts, dev_gridCellEndIndices := ends\<rparr>))))))))"

subsection \<open>Notions used in the statements and proofs\<close>

text \<open>The position a thread of \<^verbatim>\<open>kernUpdatePos\<close> stores: one Euler step, then the wrap.\<close>

definition integrate :: "real \<Rightarrow> vec3 \<Rightarrow> vec3 \<Rightarrow> vec3" where
  "integrate dt p v =
     (let q = vadd p (vscale v dt) in Vec3 (wrap (vx q)) (wrap (vy q)) (wrap (vz q)))"


text \<open>The velocity thread \<open>iSelf\<close> of \<^verbatim>\<open>kernUpdateVelocityBruteForce\<close> stores.\<close>

definition bruteForceVel :: "nat \<Rightarrow> vec3 list \<Rightarrow> vec3 list \<Rightarrow> nat \<Rightarrow> error + vec3" where
  "bruteForceVel N pos vel1 iSelf =
     bindE (rd vel1 (int iSelf)) (\<lambda>v.
     bindE (computeVelocityChange N iSelf pos vel1) (\<lambda>dv. clampSpeed (vadd v dv)))"

text \<open>The cell id \<^verbatim>\<open>kernComputeIndices\<close> stores for a position.\<close>

definition cellOf :: "int \<Rightarrow> vec3 \<Rightarrow> real \<Rightarrow> vec3 \<Rightarrow> int" where
  "cellOf gridResolution gridMin inverseCellWidth p =
     (case gridCoords gridResolution gridMin inverseCellWidth p of
        (x, y, z) \<Rightarrow> gridIndex3Dto1D x y z gridResolution)"

text \<open>
  The Spatial Hash Indexer in the specification's words: per axis
  \<open>cellCoord = clamp(floor((pos - gridMin) * invCellWidth - 0.5), 0, gridSideCount)\<close>, then
  \<open>cellId = x + y * side + z * side\<^sup>2\<close>.
\<close>

definition spec_cellCoord :: "int \<Rightarrow> real \<Rightarrow> real \<Rightarrow> real \<Rightarrow> int" where
  "spec_cellCoord side gridMin invCellWidth pos =
     min (max \<lfloor>(pos - gridMin) * invCellWidth - 1 / 2\<rfloor> 0) side"

definition spec_cellId :: "int \<Rightarrow> vec3 \<Rightarrow> real \<Rightarrow> vec3 \<Rightarrow> int" where
  "spec_cellId side gridMin invCellWidth pos =
     (let x = spec_cellCoord side (vx gridMin) invCellWidth (vx pos);
          y = spec_cellCoord side (vy gridMin) invCellWidth (vy pos);
          z = spec_cellCoord side (vz gridMin) invCellWidth (vz pos)
      in x + y * side + z * side\<^sup>2)"

text \<open>
  The two boundary tests of \<^verbatim>\<open>kernIdentifyCellStartEnd\<close> at sorted position \<open>i\<close>:
  \<^verbatim>\<open>index == 0 || particleGridIndices[index - 1] != curGrid\<close> and
  \<^verbatim>\<open>(index + 1) == N || particleGridIndices[index + 1] != curGrid\<close>.
\<close>

definition isStart :: "int list \<Rightarrow> nat \<Rightarrow> bool" where
  "isStart gs i \<longleftrightarrow> i = 0 \<or> gs ! (i - 1) \<noteq> gs ! i"

definition isEnd :: "nat \<Rightarrow> int list \<Rightarrow> nat \<Rightarrow> bool" where
  "isEnd N gs i \<longleftrightarrow> i + 1 = N \<or> gs ! (i + 1) \<noteq> gs ! i"

text \<open>
  A buffer read through the permutation table: slot \<open>s\<close> holds the entry of agent
  \<open>P ! s\<close>. This is what \<^verbatim>\<open>kernRearrangeArray\<close> produces.
\<close>

definition permuted :: "int list \<Rightarrow> 'a list \<Rightarrow> 'a list" where
  "permuted P xs = map (\<lambda>j. xs ! nat j) P"

text \<open>The table \<open>P\<close> holds every agent id of \<open>[0, N)\<close> exactly once.\<close>

definition isPermutation :: "nat \<Rightarrow> int list \<Rightarrow> bool" where
  "isPermutation N P \<longleftrightarrow> mset P = mset (map int [0..<N])"

text \<open>
  What a step leaves behind, as the unordered collection of (position, velocity) pairs
  of the current buffers; a failed step leaves its error.
\<close>

definition outcome :: "error + sim \<Rightarrow> error + (vec3 \<times> vec3) multiset" where
  "outcome res = map_sum id (\<lambda>s. mset (zip (dev_pos s) (dev_vel1 s))) res"

text \<open>
  The grid parameters \<^verbatim>\<open>Boids::initSimulation\<close> computes from the rule distances and the
  scene scale, when the global \<^verbatim>\<open>gridMinimum\<close> starts at zero.
\<close>

definition gridReady :: "sim \<Rightarrow> bool" where
  "gridReady s \<longleftrightarrow>
     gridCellWidth s = 10 \<and> gridSideCount s = 22 \<and> gridCellCount s = 10648 \<and>
     gridInverseCellWidth s = 1 / 10 \<and> gridMinimum s = Vec3 (- 110) (- 110) (- 110)"

text \<open>
  A position inside the simulated cube. \<^verbatim>\<open>kernGenerateRandomPosArray\<close> creates positions
  there and \<^verbatim>\<open>kernUpdatePos\<close> wraps every position back into it.
\<close>

definition inDomain :: "vec3 \<Rightarrow> bool" where
  "inDomain p \<longleftrightarrow>
     - scene_scale \<le> vx p \<and> vx p \<le> scene_scale \<and>
     - scene_scale \<le> vy p \<and> vy p \<le> scene_scale \<and>
     - scene_scale \<le> vz p \<and> vz p \<le> scene_scale"

subsection \<open>Two concrete populations\<close>

text \<open>
  The memory before \<^verbatim>\<open>initSimulation\<close> for one agent at \<open>x = 4.9\<close> flying in the
  positive \<open>x\<close> direction at full speed, and for two agents at rest two units apart,
  at \<open>x = -4\<close> and \<open>x = -6\<close>. In both, the two bucket tables hold the sentinel \<open>-1\<close>
  everywhere, as after a reset.
\<close>

definition mem1 :: sim where
  "mem1 = \<lparr>numObjects = 0,
     dev_pos = [Vec3 (49 / 10) 0 0], dev_pos2 = [vzero],
     dev_vel1 = [Vec3 1 0 0], dev_vel2 = [vzero],
     dev_particleArrayIndices = [0], dev_particleGridIndices = [0],
     dev_gridCellStartIndices = replicate 10648 (- 1),
     dev_gridCellEndIndices = replicate 10648 (- 1),
     gridCellCount = 0, gridSideCount = 0, gridCellWidth = 0, gridInverseCellWidth = 0,
     gridMinimum = vzero\<rparr>"

definition mem2 :: sim where
  "mem2 = \<lparr>numObjects = 0,
     dev_pos = [Vec3 (- 4) 0 0, Vec3 (- 6) 0 0], dev_pos2 = [vzero, vzero],
     dev_vel1 = [vzero, vzero], dev_vel2 = [vzero, vzero],
     dev_particleArrayIndices = [0, 0], dev_particleGridIndices = [0, 0],
     dev_gridCellStartIndices = replicate 10648 (- 1),
     dev_gridCellEndIndices = replicate 10648 (- 1),
     gridCellCount = 0, gridSideCount = 0, gridCellWidth = 0, gridInverseCellWidth = 0,
     gridMinimum = vzero\<rparr>"

section \<open>Basic facts\<close>

lemma bindE_Inr [simp]: "bindE (Inr x) f = f x"
  by (simp add: bindE_def)

lemma bindE_Inl [simp]: "bindE (Inl e) f = Inl e"
  by (simp add: bindE_def)

lemma bindE_eq_Inr: "bindE m f = Inr y \<longleftrightarrow> (\<exists>x. m = Inr x \<and> f x = Inr y)"
  by (cases m) simp_all

lemma rd_int: "rd xs (int i) = (if i < length xs then Inr (xs ! i) else Inl OutOfBounds)"
  by (simp add: rd_def)

lemma wr_int: "wr xs (int i) v = (if i < length xs then Inr (xs[i := v]) else Inl OutOfBounds)"
  by (simp add: wr_def)

lemma launch_append: "launch (ts @ us) body s = bindE (launch ts body s) (launch us body)"
  by (induction ts arbitrary: s) (simp_all split: sum.splits)

lemma launch_idle: "(\<And>t s. t \<in> set ts \<Longrightarrow> body t s = Inr s) \<Longrightarrow> launch ts body s = Inr s"
  by (induction ts) simp_all

lemma threadIds_split: "threadIds N = [0..<N] @ [N..<fullBlocksPerGrid N * blockSize]"
proof -
  have "N \<le> fullBlocksPerGrid N * blockSize"
    unfolding fullBlocksPerGrid_def blockSize_def by arith
  then have "[0..<N + (fullBlocksPerGrid N * blockSize - N)] =
      [0..<N] @ [N..<N + (fullBlocksPerGrid N * blockSize - N)]"
    by (intro upt_add_eq_append) simp
  with \<open>N \<le> fullBlocksPerGrid N * blockSize\<close> show ?thesis
    by (simp add: threadIds_def)
qed

lemma launch_threadIds:
  assumes "\<And>t s. N \<le> t \<Longrightarrow> body t s = Inr s"
  shows "launch (threadIds N) body s = launch [0..<N] body s"
proof -
  have "launch [N..<fullBlocksPerGrid N * blockSize] body s' = Inr s'" for s'
    by (rule launch_idle) (simp add: assms)
  then show ?thesis
    by (cases "launch [0..<N] body s") (simp_all add: threadIds_split launch_append)
qed

lemma distance_self [simp]: "distance p p = 0"
  by (simp add: distance_def vlength_def vsub_def dot_def)

lemma vsub_self [simp]: "vsub p p = vzero"
  by (simp add: vsub_def vzero_def)

lemma vadd_vzero [simp]: "vadd a vzero = a"
  by (simp add: vadd_def vzero_def)

lemma visit_self:
  "visit myPos myPos myVel r =
     r\<lparr>rule1 := vadd (rule1 r) myPos, rule1Cnt := rule1Cnt r + 1,
       rule3 := vadd (rule3 r) myVel, rule3Cnt := rule3Cnt r + 1\<rparr>"
  by (simp add: visit_def Let_def rule1Distance_def rule2Distance_def rule3Distance_def)

lemma visit_counts_mono:
  "rule1Cnt r \<le> rule1Cnt (visit myPos nPos nVel r) \<and> rule3Cnt r \<le> rule3Cnt (visit myPos nPos nVel r)"
  by (simp add: visit_def Let_def)

lemma neighborLoop_total:
  "\<forall>i\<in>set is. i < length pos \<and> i < length vel \<Longrightarrow> \<exists>r'. neighborLoop is pos vel myPos r = Inr r'"
  by (induction "is" arbitrary: r) (simp_all add: rd_int)

lemma neighborLoop_counts_mono:
  "neighborLoop is pos vel myPos r = Inr r' \<Longrightarrow> rule1Cnt r \<le> rule1Cnt r' \<and> rule3Cnt r \<le> rule3Cnt r'"
proof (induction "is" arbitrary: r)
  case Nil
  then show ?case by simp
next
  case (Cons i "is")
  from Cons.prems obtain nPos nVel where
    "neighborLoop is pos vel myPos (visit myPos nPos nVel r) = Inr r'"
    by (auto simp: bindE_eq_Inr)
  from Cons.IH [OF this] visit_counts_mono [of r myPos nPos nVel] show ?case
    by linarith
qed

lemma neighborLoop_append:
  "neighborLoop (is @ js) pos vel myPos r =
     bindE (neighborLoop is pos vel myPos r) (neighborLoop js pos vel myPos)"
proof (induction "is" arbitrary: r)
  case Nil
  then show ?case by simp
next
  case (Cons i "is")
  show ?case
    by (cases "rd pos (int i)"; cases "rd vel (int i)") (simp_all add: Cons.IH)
qed

subsection \<open>The brute-force neighbour loop\<close>

lemma neighborLoop_self_counted:
  assumes "iSelf \<in> set is" "\<forall>i\<in>set is. i < length pos \<and> i < length vel"
  shows "\<exists>r'. neighborLoop is pos vel (pos ! iSelf) r = Inr r' \<and>
           rule1Cnt r + 1 \<le> rule1Cnt r' \<and> rule3Cnt r + 1 \<le> rule3Cnt r'"
proof -
  from assms(1) obtain as bs where sp: "is = as @ iSelf # bs"
    by (auto simp: in_set_conv_decomp)
  let ?p = "pos ! iSelf"
  from assms(2) sp obtain ra where ra: "neighborLoop as pos vel ?p r = Inr ra"
    using neighborLoop_total [of as pos vel ?p r] by auto
  let ?rb = "visit ?p ?p (vel ! iSelf) ra"
  from assms(2) sp obtain rc where rc: "neighborLoop bs pos vel ?p ?rb = Inr rc"
    using neighborLoop_total [of bs pos vel ?p ?rb] by auto
  from assms(2) sp have "iSelf < length pos" "iSelf < length vel"
    by auto
  then have "neighborLoop is pos vel ?p r = Inr rc"
    by (simp add: sp neighborLoop_append ra rc rd_int)
  moreover have "rule1Cnt r \<le> rule1Cnt ra" "rule3Cnt r \<le> rule3Cnt ra"
    using neighborLoop_counts_mono [OF ra] by simp_all
  moreover have "rule1Cnt ?rb = rule1Cnt ra + 1" "rule3Cnt ?rb = rule3Cnt ra + 1"
    by (simp_all add: visit_self)
  moreover have "rule1Cnt ?rb \<le> rule1Cnt rc" "rule3Cnt ?rb \<le> rule3Cnt rc"
    using neighborLoop_counts_mono [OF rc] by simp_all
  ultimately show ?thesis
    by simp
qed

lemma upt_split: "i < n \<Longrightarrow> [0..<n] = [0..<i] @ i # [Suc i..<n]"
proof -
  assume "i < n"
  then have "[0..<i + (n - i)] = [0..<i] @ [i..<i + (n - i)]"
    by (intro upt_add_eq_append) simp
  with \<open>i < n\<close> show ?thesis
    by (simp add: upt_conv_Cons)
qed

lemma scaleRules_total:
  "rule1Cnt r \<noteq> 0 \<Longrightarrow> rule3Cnt r \<noteq> 0 \<Longrightarrow> \<exists>c. scaleRules myPos r = Inr c"
  by (simp add: scaleRules_def vdivs_def)

lemma scaleRules_NonFinite_iff:
  "scaleRules myPos r = Inl NonFinite \<longleftrightarrow> rule1Cnt r = 0 \<or> rule3Cnt r = 0"
  by (simp add: scaleRules_def vdivs_def)

subsection \<open>Kernel launches, integration, clamp\<close>

lemma bindE_assoc: "bindE (bindE m f) g = bindE m (\<lambda>x. bindE (f x) g)"
  by (cases m) simp_all

lemma launch_single: "launch [t] body = body t"
  by (rule ext) (simp split: sum.splits)

lemma launch_snoc: "launch (ts @ [t]) body s = bindE (launch ts body s) (body t)"
  by (simp add: launch_append launch_single)

lemma launch_own_slot:
  assumes body: "\<And>t buf. t < N \<Longrightarrow> body t buf = bindE (g t) (\<lambda>v. wr buf (int t) v)"
  shows "launch [0..<n] body buf = Inr buf' \<Longrightarrow> n \<le> N \<Longrightarrow>
         length buf' = length buf \<and> (\<forall>t<n. t < length buf \<and> g t = Inr (buf' ! t)) \<and>
         (\<forall>t\<ge>n. buf' ! t = buf ! t)"
proof (induction n arbitrary: buf')
  case 0
  then show ?case by simp
next
  case (Suc n)
  from Suc.prems obtain b where b: "launch [0..<n] body buf = Inr b" and st: "body n b = Inr buf'"
    by (auto simp: launch_snoc bindE_eq_Inr)
  from Suc.IH [OF b] Suc.prems
  have IH: "length b = length buf" "\<forall>t<n. t < length buf \<and> g t = Inr (b ! t)"
    "\<forall>t\<ge>n. b ! t = buf ! t"
    by simp_all
  from st Suc.prems obtain v where v: "g n = Inr v" "n < length b" "buf' = b[n := v]"
    by (auto simp: body bindE_eq_Inr wr_int split: if_splits)
  with IH show ?case
    by (auto simp: nth_list_update less_Suc_eq)
qed

lemma launch_own_slot_total:
  assumes body: "\<And>t buf. t < N \<Longrightarrow> body t buf = bindE (g t) (\<lambda>v. wr buf (int t) v)"
  shows "\<forall>t<n. \<exists>v. g t = Inr v \<Longrightarrow> n \<le> N \<Longrightarrow> n \<le> length buf \<Longrightarrow>
         \<exists>buf'. launch [0..<n] body buf = Inr buf'"
proof (induction n)
  case 0
  then show ?case by simp
next
  case (Suc n)
  then obtain b where b: "launch [0..<n] body buf = Inr b"
    by auto
  from launch_own_slot [of N body g n buf b] body b Suc.prems have "length b = length buf"
    by simp
  moreover from Suc.prems obtain v where "g n = Inr v"
    by auto
  ultimately show ?case
    using Suc.prems by (simp add: launch_snoc b body wr_int)
qed

lemma kernUpdatePos_launch:
  "n \<le> N \<Longrightarrow> n \<le> length pos \<Longrightarrow> n \<le> length vel \<Longrightarrow>
   \<exists>pos'. launch [0..<n] (kernUpdatePos_thread N dt vel) pos = Inr pos' \<and>
     length pos' = length pos \<and> (\<forall>i<n. pos' ! i = integrate dt (pos ! i) (vel ! i)) \<and>
     (\<forall>i\<ge>n. pos' ! i = pos ! i)"
proof (induction n)
  case 0
  then show ?case by simp
next
  case (Suc n)
  then obtain b where b: "launch [0..<n] (kernUpdatePos_thread N dt vel) pos = Inr b"
    "length b = length pos" "\<forall>i<n. b ! i = integrate dt (pos ! i) (vel ! i)"
    "\<forall>i\<ge>n. b ! i = pos ! i"
    by auto
  with Suc.prems have "kernUpdatePos_thread N dt vel n b = Inr (b[n := integrate dt (pos ! n) (vel ! n)])"
    by (simp add: kernUpdatePos_thread_def rd_int wr_int integrate_def Let_def)
  with b Suc.prems show ?case
    by (auto simp: launch_snoc nth_list_update less_Suc_eq)
qed

lemma kernUpdatePos_eq:
  assumes "N \<le> length pos" "N \<le> length vel"
  shows "\<exists>pos'. kernUpdatePos N dt pos vel = Inr pos' \<and>
     length pos' = length pos \<and> (\<forall>i<N. pos' ! i = integrate dt (pos ! i) (vel ! i)) \<and>
     (\<forall>i\<ge>N. pos' ! i = pos ! i)"
proof -
  have "kernUpdatePos N dt pos vel = launch [0..<N] (kernUpdatePos_thread N dt vel) pos"
    unfolding kernUpdatePos_def by (rule launch_threadIds) (simp add: kernUpdatePos_thread_def)
  with kernUpdatePos_launch [of N N pos vel dt] assms show ?thesis
    by simp
qed

lemma vlength_nonneg [simp]: "0 \<le> vlength v"
  by (simp add: vlength_def dot_def)

lemma vlength_vscale: "vlength (vscale v k) = vlength v * \<bar>k\<bar>"
proof -
  have "dot (vscale v k) (vscale v k) = dot v v * (k * k)"
    by (simp add: dot_def vscale_def algebra_simps)
  then show ?thesis
    by (simp add: vlength_def real_sqrt_mult)
qed

lemma vscale_vscale: "vscale (vscale v a) b = vscale v (a * b)"
  by (simp add: vscale_def mult.assoc)

lemma clampSpeed_over:
  assumes "vlength v > maxSpeed"
  shows "\<exists>w. clampSpeed v = Inr w \<and> w = vscale v (maxSpeed / vlength v) \<and>
           vlength w = maxSpeed \<and> vscale w (1 / vlength w) = vscale v (1 / vlength v)"
proof -
  let ?w = "vscale v (maxSpeed / vlength v)"
  from assms have pos: "0 < vlength v"
    by (simp add: maxSpeed_def)
  then have "clampSpeed v = Inr ?w"
    using assms by (simp add: clampSpeed_def vdivs_def vscale_def Let_def)
  moreover have len: "vlength ?w = maxSpeed"
    using pos by (simp add: vlength_vscale maxSpeed_def)
  moreover have "vscale ?w (1 / vlength ?w) = vscale v (1 / vlength v)"
    using len by (simp add: vscale_vscale maxSpeed_def)
  ultimately show ?thesis
    by simp
qed

lemma clampSpeed_under: "\<not> vlength v > maxSpeed \<Longrightarrow> clampSpeed v = Inr v"
  by (simp add: clampSpeed_def)

lemma clampSpeed_total: "\<exists>w. clampSpeed v = Inr w"
  using clampSpeed_over [of v] clampSpeed_under [of v] by blast


lemma kernUpdateVelocityBruteForce_launch:
  "kernUpdateVelocityBruteForce N pos vel1 vel2 =
     launch [0..<N] (kernUpdateVelocityBruteForce_thread N pos vel1) vel2"
  unfolding kernUpdateVelocityBruteForce_def
  by (rule launch_threadIds) (simp add: kernUpdateVelocityBruteForce_thread_def)

lemma kernUpdateVelocityBruteForce_thread_own:
  "t < N \<Longrightarrow> kernUpdateVelocityBruteForce_thread N pos vel1 t buf =
     bindE (bruteForceVel N pos vel1 t) (\<lambda>v. wr buf (int t) v)"
  by (simp add: kernUpdateVelocityBruteForce_thread_def bruteForceVel_def bindE_assoc)

lemma kernUpdateVelocityBruteForce_Inr:
  assumes "kernUpdateVelocityBruteForce N pos vel1 vel2 = Inr vel2'"
  shows "length vel2' = length vel2 \<and> (\<forall>t<N. t < length vel2 \<and> bruteForceVel N pos vel1 t = Inr (vel2' ! t)) \<and>
         (\<forall>t\<ge>N. vel2' ! t = vel2 ! t)"
  using launch_own_slot [of N "kernUpdateVelocityBruteForce_thread N pos vel1"
      "bruteForceVel N pos vel1" N vel2 vel2'] assms
  by (simp add: kernUpdateVelocityBruteForce_launch kernUpdateVelocityBruteForce_thread_own)


lemma distance_less_iff: "0 < r \<Longrightarrow> distance a b < r \<longleftrightarrow> dot (vsub b a) (vsub b a) < r * r"
proof -
  assume "0 < r"
  then have "sqrt (r * r) = r"
    by simp
  then have "distance a b < r \<longleftrightarrow> sqrt (dot (vsub b a) (vsub b a)) < sqrt (r * r)"
    by (simp add: distance_def vlength_def)
  then show ?thesis
    by (simp only: real_sqrt_less_iff)
qed

lemma vlength_greater_iff: "0 \<le> m \<Longrightarrow> m < vlength v \<longleftrightarrow> m * m < dot v v"
proof -
  assume "0 \<le> m"
  then have "sqrt (m * m) = m"
    by simp
  then have "m < vlength v \<longleftrightarrow> sqrt (m * m) < sqrt (dot v v)"
    by (simp add: vlength_def)
  then show ?thesis
    by (simp only: real_sqrt_less_iff)
qed

lemma vlength_axis: "vlength (Vec3 a 0 0) = \<bar>a\<bar>"
  by (simp add: vlength_def dot_def)

lemmas config_defs = rule1Distance_def rule2Distance_def rule3Distance_def rule1Scale_def
  rule2Scale_def rule3Scale_def maxSpeed_def scene_scale_def

lemmas vec_defs = vadd_def vsub_def vscale_def vdivs_def dot_def vzero_def vsplat_def vclamp_def
  clampf_def

lemma visit_eval:
  "visit myPos nPos nVel r =
     (let d = dot (vsub myPos nPos) (vsub myPos nPos);
          r = (if d < 25
               then r\<lparr>rule1 := vadd (rule1 r) nPos, rule1Cnt := rule1Cnt r + 1\<rparr> else r);
          r = (if d < 9
               then r\<lparr>rule2 := vadd (rule2 r) (vsub myPos nPos)\<rparr> else r);
          r = (if d < 25
               then r\<lparr>rule3 := vadd (rule3 r) nVel, rule3Cnt := rule3Cnt r + 1\<rparr> else r)
      in r)"
  by (simp add: visit_def distance_less_iff config_defs Let_def)

lemma clampSpeed_eval:
  "clampSpeed (Vec3 a 0 0) = (if 1 < \<bar>a\<bar> then Inr (Vec3 (a / \<bar>a\<bar>) 0 0) else Inr (Vec3 a 0 0))"
  by (simp add: clampSpeed_def vlength_axis maxSpeed_def vdivs_def vscale_def Let_def)

subsection \<open>Cell ids and the bucket table\<close>

lemma float2int_clampf:
  "float2int (clampf a 0 (of_int R)) = min (max \<lfloor>a\<rfloor> 0) R"
proof (cases "0 \<le> R")
  case True
  then have "0 \<le> clampf a 0 (of_int R)"
    by (simp add: clampf_def)
  then have "float2int (clampf a 0 (of_int R)) = \<lfloor>min (max a 0) (of_int R)\<rfloor>"
    by (simp add: float2int_def clampf_def)
  also have "\<dots> = min \<lfloor>max a 0\<rfloor> R"
    by (simp add: min_def le_floor_iff floor_le_iff) linarith
  also have "\<lfloor>max a 0\<rfloor> = max \<lfloor>a\<rfloor> 0"
    by (simp add: max_def le_floor_iff) linarith
  finally show ?thesis .
next
  case False
  then have "clampf a 0 (of_int R) = of_int R"
    by (simp add: clampf_def min_def max_def)
  with False show ?thesis
    by (simp add: float2int_def)
qed

lemma cellOf_spec: "cellOf R gmin icw p = spec_cellId R gmin icw p"
  by (simp add: cellOf_def gridCoords_def spec_cellId_def spec_cellCoord_def Let_def
      vclamp_def vsplat_def vsub_def vscale_def float2int_clampf gridIndex3Dto1D_def power2_eq_square)

lemma kernComputeIndices_launch:
  "n \<le> N \<Longrightarrow> n \<le> length pos \<Longrightarrow> n \<le> length indices \<Longrightarrow> n \<le> length gridIndices \<Longrightarrow>
   \<exists>I G. launch [0..<n] (kernComputeIndices_thread N R gmin icw pos) (indices, gridIndices)
           = Inr (I, G) \<and>
     length I = length indices \<and> length G = length gridIndices \<and>
     (\<forall>i<n. I ! i = int i \<and> G ! i = cellOf R gmin icw (pos ! i)) \<and>
     (\<forall>i\<ge>n. I ! i = indices ! i \<and> G ! i = gridIndices ! i)"
proof (induction n)
  case 0
  then show ?case by simp
next
  case (Suc n)
  then obtain I G where b:
    "launch [0..<n] (kernComputeIndices_thread N R gmin icw pos) (indices, gridIndices) = Inr (I, G)"
    "length I = length indices" "length G = length gridIndices"
    "\<forall>i<n. I ! i = int i \<and> G ! i = cellOf R gmin icw (pos ! i)"
    "\<forall>i\<ge>n. I ! i = indices ! i \<and> G ! i = gridIndices ! i"
    by auto
  with Suc.prems have "kernComputeIndices_thread N R gmin icw pos n (I, G) =
      Inr (I[n := int n], G[n := cellOf R gmin icw (pos ! n)])"
    by (simp add: kernComputeIndices_thread_def rd_int wr_int cellOf_def split: prod.splits)
  with b Suc.prems show ?case
    by (auto simp: launch_snoc nth_list_update less_Suc_eq)
qed

lemma kernComputeIndices_eq:
  "kernComputeIndices N R gmin icw pos bufs =
     launch [0..<N] (kernComputeIndices_thread N R gmin icw pos) bufs"
  unfolding kernComputeIndices_def
  by (rule launch_threadIds) (simp add: kernComputeIndices_thread_def split: prod.splits)

lemma sorted_take_nth:
  "sorted (take N gs) \<Longrightarrow> N \<le> length gs \<Longrightarrow> i \<le> j \<Longrightarrow> j < N \<Longrightarrow> gs ! i \<le> gs ! j"
  using sorted_iff_nth_mono [of "take N gs"] by (auto dest!: spec [of _ i] spec [of _ j])

lemma isStart_unique:
  assumes "sorted (take N gs)" "N \<le> length gs" "i < N" "j < N"
    "isStart gs i" "isStart gs j" "gs ! i = gs ! j"
  shows "i = j"
proof -
  have aux: "a = b" if "a \<le> b" "b < N" "isStart gs b" "gs ! a = gs ! b" for a b
  proof (rule ccontr)
    assume "a \<noteq> b"
    with that have "a \<le> b - 1" "b - 1 < N" "b - 1 \<le> b" "b \<noteq> 0" "gs ! (b - 1) \<noteq> gs ! b"
      by (auto simp: isStart_def)
    with sorted_take_nth [OF assms(1,2), of a "b - 1"] sorted_take_nth [OF assms(1,2), of "b - 1" b] that
    show False
      by simp
  qed
  show ?thesis
    using aux [of i j] aux [of j i] assms by (cases "i \<le> j") auto
qed

lemma isEnd_unique:
  assumes "sorted (take N gs)" "N \<le> length gs" "i < N" "j < N"
    "isEnd N gs i" "isEnd N gs j" "gs ! i = gs ! j"
  shows "i = j"
proof -
  have aux: "a = b" if "a \<le> b" "b < N" "isEnd N gs a" "gs ! a = gs ! b" for a b
  proof (rule ccontr)
    assume "a \<noteq> b"
    with that have "a + 1 \<le> b" "a + 1 < N" "gs ! (a + 1) \<noteq> gs ! a"
      by (auto simp: isEnd_def)
    with sorted_take_nth [OF assms(1,2), of a "a + 1"] sorted_take_nth [OF assms(1,2), of "a + 1" b] that
    show False
      by simp
  qed
  show ?thesis
    using aux [of i j] aux [of j i] assms by (cases "i \<le> j") auto
qed

lemma kernIdentifyCellStartEnd_thread_eq:
  assumes "i < N" "N \<le> length gs" "0 \<le> gs ! i" "gs ! i < int (length st)" "gs ! i < int (length en)"
  shows "kernIdentifyCellStartEnd_thread N gs i (st, en) =
     Inr (if isStart gs i then st[nat (gs ! i) := int i] else st,
          if isEnd N gs i then en[nat (gs ! i) := int i + 1] else en)"
proof -
  from assms have r0: "rd gs (int i) = Inr (gs ! i)"
    by (simp add: rd_int)
  from assms have r1: "i \<noteq> 0 \<Longrightarrow> rd gs (int i - 1) = Inr (gs ! (i - 1))"
    by (simp add: rd_def nat_diff_distrib')
  from assms have r2: "i + 1 \<noteq> N \<Longrightarrow> rd gs (int i + 1) = Inr (gs ! (i + 1))"
    by (simp add: rd_def nat_add_distrib)
  have st: "bindE (if i = 0 then Inr True
                 else bindE (rd gs (int i - 1)) (\<lambda>g. Inr (g \<noteq> gs ! i))) f = f (isStart gs i)" for f
    using r1 by (cases "i = 0") (simp_all add: isStart_def)
  have en: "bindE (if i + 1 = N then Inr True
                 else bindE (rd gs (int i + 1)) (\<lambda>g. Inr (g \<noteq> gs ! i))) f = f (isEnd N gs i)" for f
    using r2 by (cases "i + 1 = N") (simp_all add: isEnd_def)
  from assms(1) show ?thesis
    unfolding kernIdentifyCellStartEnd_thread_def
    by (simp add: r0 st en del: One_nat_def) (simp add: wr_def assms(3-5))
qed

lemma kernIdentifyCellStartEnd_launch:
  assumes "sorted (take N gs)" "N \<le> length gs"
    "\<forall>i<N. 0 \<le> gs ! i \<and> gs ! i < int (length st0) \<and> gs ! i < int (length en0)"
  shows "n \<le> N \<Longrightarrow>
     \<exists>st en. launch [0..<n] (kernIdentifyCellStartEnd_thread N gs) (st0, en0) = Inr (st, en) \<and>
       length st = length st0 \<and> length en = length en0 \<and>
       (\<forall>c i. i < n \<and> isStart gs i \<and> gs ! i = int c \<longrightarrow> st ! c = int i) \<and>
       (\<forall>c. (\<forall>i<n. \<not> (isStart gs i \<and> gs ! i = int c)) \<longrightarrow> st ! c = st0 ! c) \<and>
       (\<forall>c i. i < n \<and> isEnd N gs i \<and> gs ! i = int c \<longrightarrow> en ! c = int i + 1) \<and>
       (\<forall>c. (\<forall>i<n. \<not> (isEnd N gs i \<and> gs ! i = int c)) \<longrightarrow> en ! c = en0 ! c)"
proof (induction n)
  case 0
  then show ?case by simp
next
  case (Suc n)
  then obtain st en where b:
    "launch [0..<n] (kernIdentifyCellStartEnd_thread N gs) (st0, en0) = Inr (st, en)"
    "length st = length st0" "length en = length en0"
    and s1: "\<And>c i. i < n \<Longrightarrow> isStart gs i \<Longrightarrow> gs ! i = int c \<Longrightarrow> st ! c = int i"
    and s2: "\<And>c. (\<forall>i<n. \<not> (isStart gs i \<and> gs ! i = int c)) \<Longrightarrow> st ! c = st0 ! c"
    and e1: "\<And>c i. i < n \<Longrightarrow> isEnd N gs i \<Longrightarrow> gs ! i = int c \<Longrightarrow> en ! c = int i + 1"
    and e2: "\<And>c. (\<forall>i<n. \<not> (isEnd N gs i \<and> gs ! i = int c)) \<Longrightarrow> en ! c = en0 ! c"
    by auto
  from Suc.prems have nN: "n < N"
    by simp
  with assms(3) have rng: "0 \<le> gs ! n" "gs ! n < int (length st)" "gs ! n < int (length en)"
    by (simp_all add: b)
  let ?k = "nat (gs ! n)"
  let ?st = "if isStart gs n then st[?k := int n] else st"
  let ?en = "if isEnd N gs n then en[?k := int n + 1] else en"
  have k: "int ?k = gs ! n" "?k < length st" "?k < length en"
    using rng by simp_all
  have step: "launch [0..<Suc n] (kernIdentifyCellStartEnd_thread N gs) (st0, en0) = Inr (?st, ?en)"
    using kernIdentifyCellStartEnd_thread_eq [OF nN assms(2) rng]
    by (simp add: launch_snoc b)
  have "?st ! c = int i" if "i < Suc n" "isStart gs i" "gs ! i = int c" for c i
  proof (cases "i = n")
    case True
    with that k show ?thesis
      by auto
  next
    case False
    with that have i: "i < n"
      by simp
    show ?thesis
    proof (cases "isStart gs n \<and> c = ?k")
      case True
      with isStart_unique [OF assms(1,2), of i n] that i nN k
      show ?thesis
        by auto
    next
      case False
      with s1 [OF i that(2,3)] show ?thesis
        by auto
    qed
  qed
  moreover have "?st ! c = st0 ! c" if "\<forall>i<Suc n. \<not> (isStart gs i \<and> gs ! i = int c)" for c
  proof -
    from that have "\<not> (isStart gs n \<and> c = ?k)"
      using k by auto
    moreover from that have "st ! c = st0 ! c"
      by (intro s2) auto
    ultimately show ?thesis
      by auto
  qed
  moreover have "?en ! c = int i + 1" if "i < Suc n" "isEnd N gs i" "gs ! i = int c" for c i
  proof (cases "i = n")
    case True
    with that k show ?thesis
      by auto
  next
    case False
    with that have i: "i < n"
      by simp
    show ?thesis
    proof (cases "isEnd N gs n \<and> c = ?k")
      case True
      with isEnd_unique [OF assms(1,2), of i n] that i nN k
      show ?thesis
        by auto
    next
      case False
      with e1 [OF i that(2,3)] show ?thesis
        by auto
    qed
  qed
  moreover have "?en ! c = en0 ! c" if "\<forall>i<Suc n. \<not> (isEnd N gs i \<and> gs ! i = int c)" for c
  proof -
    from that have "\<not> (isEnd N gs n \<and> c = ?k)"
      using k by auto
    moreover from that have "en ! c = en0 ! c"
      by (intro e2) auto
    ultimately show ?thesis
      by auto
  qed
  moreover have "length ?st = length st0" "length ?en = length en0"
    by (simp_all add: b)
  ultimately show ?case
    unfolding step by blast
qed

lemma kernResetIntBuffer_eq:
  assumes "kernResetIntBuffer C buf v = Inr buf'" "length buf = C"
  shows "buf' = replicate C v"
proof -
  have l: "kernResetIntBuffer C buf v = launch [0..<C] (kernResetIntBuffer_thread C v) buf"
    unfolding kernResetIntBuffer_def
    by (rule launch_threadIds) (simp add: kernResetIntBuffer_thread_def)
  have "length buf' = length buf \<and> (\<forall>t<C. t < length buf \<and> Inr v = Inr (buf' ! t)) \<and>
      (\<forall>t\<ge>C. buf' ! t = buf ! t)"
    using launch_own_slot [of C "kernResetIntBuffer_thread C v" "\<lambda>t. Inr v" C buf buf'] assms l
    by (simp add: kernResetIntBuffer_thread_def)
  with assms(2) show ?thesis
    by (auto simp: list_eq_iff_nth_eq)
qed

lemma kernResetIntBuffer_total:
  assumes "length buf = C"
  shows "kernResetIntBuffer C buf v = Inr (replicate C v)"
proof -
  have l: "kernResetIntBuffer C buf v = launch [0..<C] (kernResetIntBuffer_thread C v) buf"
    unfolding kernResetIntBuffer_def
    by (rule launch_threadIds) (simp add: kernResetIntBuffer_thread_def)
  have "\<exists>buf'. launch [0..<C] (kernResetIntBuffer_thread C v) buf = Inr buf'"
    using launch_own_slot_total [of C "kernResetIntBuffer_thread C v" "\<lambda>t. Inr v" C buf] assms
    by (simp add: kernResetIntBuffer_thread_def)
  then obtain buf' where "kernResetIntBuffer C buf v = Inr buf'"
    by (auto simp: l)
  with kernResetIntBuffer_eq [OF this assms] show ?thesis
    by simp
qed

lemma kernIdentifyCellStartEnd_eq:
  "kernIdentifyCellStartEnd N gs bufs = launch [0..<N] (kernIdentifyCellStartEnd_thread N gs) bufs"
  unfolding kernIdentifyCellStartEnd_def
  by (rule launch_threadIds) (simp add: kernIdentifyCellStartEnd_thread_def split: prod.splits)

lemma kernIdentifyCellStartEnd_tables:
  assumes "sorted (take N gs)" "N \<le> length gs"
    "\<forall>i<N. 0 \<le> gs ! i \<and> gs ! i < int (length st0) \<and> gs ! i < int (length en0)"
  shows "\<exists>st en. kernIdentifyCellStartEnd N gs (st0, en0) = Inr (st, en) \<and>
       length st = length st0 \<and> length en = length en0 \<and>
       (\<forall>c. if \<exists>i<N. gs ! i = int c
            then 0 \<le> st ! c \<and> st ! c < en ! c \<and> en ! c \<le> int N \<and>
                 (\<forall>i<N. (st ! c \<le> int i \<and> int i < en ! c) = (gs ! i = int c))
            else st ! c = st0 ! c \<and> en ! c = en0 ! c)"
proof -
  from kernIdentifyCellStartEnd_launch [OF assms, of N]
  obtain st en where k: "kernIdentifyCellStartEnd N gs (st0, en0) = Inr (st, en)"
    "length st = length st0" "length en = length en0"
    and s1: "\<And>c i. i < N \<Longrightarrow> isStart gs i \<Longrightarrow> gs ! i = int c \<Longrightarrow> st ! c = int i"
    and s2: "\<And>c. (\<forall>i<N. \<not> (isStart gs i \<and> gs ! i = int c)) \<Longrightarrow> st ! c = st0 ! c"
    and e1: "\<And>c i. i < N \<Longrightarrow> isEnd N gs i \<Longrightarrow> gs ! i = int c \<Longrightarrow> en ! c = int i + 1"
    and e2: "\<And>c. (\<forall>i<N. \<not> (isEnd N gs i \<and> gs ! i = int c)) \<Longrightarrow> en ! c = en0 ! c"
    unfolding kernIdentifyCellStartEnd_eq by auto
  have occupied: "0 \<le> st ! c \<and> st ! c < en ! c \<and> en ! c \<le> int N \<and>
      (\<forall>i<N. (st ! c \<le> int i \<and> int i < en ! c) = (gs ! i = int c))"
    if "\<exists>i<N. gs ! i = int c" for c
  proof -
    let ?S = "{i. i < N \<and> gs ! i = int c}"
    have fin: "finite ?S" and ne: "?S \<noteq> {}"
      using that by auto
    let ?a = "Min ?S" and ?b = "Max ?S"
    from Min_in [OF fin ne] have a: "?a < N" "gs ! ?a = int c"
      by simp_all
    from Max_in [OF fin ne] have b: "?b < N" "gs ! ?b = int c"
      by simp_all
    have "isStart gs ?a"
    proof (rule ccontr)
      assume "\<not> isStart gs ?a"
      then have "?a \<noteq> 0" "gs ! (?a - 1) = int c"
        using a by (simp_all add: isStart_def)
      with a have "?a - 1 \<in> ?S"
        by simp
      from Min_le [OF fin this] \<open>?a \<noteq> 0\<close> show False
        by simp
    qed
    from s1 [OF a(1) this a(2)] have st: "st ! c = int ?a" .
    have "isEnd N gs ?b"
    proof (rule ccontr)
      assume "\<not> isEnd N gs ?b"
      then have "?b + 1 \<noteq> N" "gs ! (?b + 1) = int c"
        using b by (simp_all add: isEnd_def)
      with b have "?b + 1 \<in> ?S"
        by simp
      from Max_ge [OF fin this] show False
        by simp
    qed
    from e1 [OF b(1) this b(2)] have en: "en ! c = int ?b + 1" .
    have ab: "?a \<le> ?b"
      using Min_in [OF fin ne] Max_ge [OF fin] by blast
    have "(?a \<le> i \<and> i \<le> ?b) = (gs ! i = int c)" if "i < N" for i
    proof
      assume "?a \<le> i \<and> i \<le> ?b"
      with sorted_take_nth [OF assms(1,2), of ?a i] sorted_take_nth [OF assms(1,2), of i ?b]
        that a b show "gs ! i = int c"
        by simp
    next
      assume "gs ! i = int c"
      with that have "i \<in> ?S"
        by simp
      with Min_le [OF fin this] Max_ge [OF fin this] show "?a \<le> i \<and> i \<le> ?b"
        by simp
    qed
    with st en ab b(1) show ?thesis
      by auto
  qed
  have "st ! c = st0 ! c \<and> en ! c = en0 ! c" if "\<not> (\<exists>i<N. gs ! i = int c)" for c
    using that s2 [of c] e2 [of c] by blast
  with occupied k show ?thesis
    by (intro exI [of _ st] exI [of _ en]) auto
qed

subsection \<open>The steps on the two concrete populations\<close>

lemma kernUpdateVelNeighborSearchScattered_eq:
  "kernUpdateVelNeighborSearchScattered N R gmin icw cw st en P pos vel1 vel2 =
     launch [0..<N] (kernUpdateVelNeighborSearchScattered_thread N R gmin icw cw st en P pos vel1) vel2"
  unfolding kernUpdateVelNeighborSearchScattered_def
  by (rule launch_threadIds) (simp add: kernUpdateVelNeighborSearchScattered_thread_def)

lemma kernUpdateVelNeighborSearchCoherent_eq:
  "kernUpdateVelNeighborSearchCoherent N R gmin icw cw st en pos vel1 vel2 =
     launch [0..<N] (kernUpdateVelNeighborSearchCoherent_thread N R gmin icw cw st en pos vel1) vel2"
  unfolding kernUpdateVelNeighborSearchCoherent_def
  by (rule launch_threadIds) (simp add: kernUpdateVelNeighborSearchCoherent_thread_def)

lemma kernRearrangeArray_eq:
  "kernRearrangeArray N P pos vel2 bufs = launch [0..<N] (kernRearrangeArray_thread N P pos vel2) bufs"
  unfolding kernRearrangeArray_def
  by (rule launch_threadIds) (simp add: kernRearrangeArray_thread_def split: prod.splits)

lemma kernUpdatePos_launch_eq:
  "kernUpdatePos N dt pos vel = launch [0..<N] (kernUpdatePos_thread N dt vel) pos"
  unfolding kernUpdatePos_def by (rule launch_threadIds) (simp add: kernUpdatePos_thread_def)

lemma upt_0_2: "[0..<2] = [0, 1]"
  by (simp add: numeral_2_eq_2)

lemma initSimulation_two_agents: "initSimulation 2 mem2 = mem2\<lparr>numObjects := 2, gridCellWidth := 10, gridSideCount := 22,
    gridCellCount := 10648, gridInverseCellWidth := 1 / 10, gridMinimum := Vec3 (- 110) (- 110) (- 110)\<rparr>"
  by (simp add: initSimulation_def config_defs float2int_def vec_defs mem2_def)

lemma two_agents_indices: "kernComputeIndices 2 22 (Vec3 (- 110) (- 110) (- 110)) (1 / 10)
    [Vec3 (- 4) 0 0, Vec3 (- 6) 0 0] ([0, 0], [0, 0]) = Inr ([0, 1], [5070, 5069])"
  by (simp add: kernComputeIndices_eq upt_0_2 kernComputeIndices_thread_def rd_def wr_def
      gridCoords_def vec_defs float2int_def gridIndex3Dto1D_def)

lemma two_agents_sorted: "sort_by_key 2 [5070, 5069] [0, 1] = Inr ([5069, 5070], [1, 0])"
  by (simp add: sort_by_key_def)

lemma two_agents_buckets: "kernIdentifyCellStartEnd 2 [5069, 5070] (replicate 10648 (- 1), replicate 10648 (- 1)) =
   Inr ((replicate 10648 (- 1))[5069 := 0, 5070 := 1], (replicate 10648 (- 1))[5069 := 1, 5070 := 2])"
  by (simp add: kernIdentifyCellStartEnd_eq upt_0_2 kernIdentifyCellStartEnd_thread_def rd_def wr_def)

lemma two_agents_grid_velocities: "kernUpdateVelNeighborSearchScattered 2 22 (Vec3 (- 110) (- 110) (- 110)) (1 / 10) 10
   ((replicate 10648 (- 1))[5069 := 0, 5070 := 1]) ((replicate 10648 (- 1))[5069 := 1, 5070 := 2])
   [1, 0] [Vec3 (- 4) 0 0, Vec3 (- 6) 0 0] [vzero, vzero] [vzero, vzero] =
   Inr [Vec3 0 0 0, Vec3 (- 19 / 100) 0 0]"
  by (simp add: kernUpdateVelNeighborSearchScattered_eq upt_0_2
      kernUpdateVelNeighborSearchScattered_thread_def rd_def wr_def gridCoords_def
      vec_defs float2int_def neighborOffsets_def gridIndex3Dto1D_def Let_def rules0_def
      visit_eval scaleRules_def clampSpeed_eval config_defs)

lemma two_agents_brute_velocities: "kernUpdateVelocityBruteForce 2 [Vec3 (- 4) 0 0, Vec3 (- 6) 0 0] [vzero, vzero] [vzero, vzero] =
   Inr [Vec3 (19 / 100) 0 0, Vec3 (- 19 / 100) 0 0]"
  by (simp add: kernUpdateVelocityBruteForce_launch upt_0_2
      kernUpdateVelocityBruteForce_thread_def computeVelocityChange_def rd_def wr_def
      rules0_def visit_eval scaleRules_def sumRules_def vec_defs clampSpeed_eval config_defs)

lemma two_agents_grid_positions: "kernUpdatePos 2 (1 / 5) [Vec3 (- 4) 0 0, Vec3 (- 6) 0 0] [Vec3 0 0 0, Vec3 (- (19 / 100)) 0 0] =
   Inr [Vec3 (- 4) 0 0, Vec3 (- (3019 / 500)) 0 0]"
  by (simp add: kernUpdatePos_launch_eq upt_0_2 kernUpdatePos_thread_def rd_def wr_def vec_defs
      wrap_def config_defs)

lemma two_agents_brute_positions: "kernUpdatePos 2 (1 / 5) [Vec3 (- 4) 0 0, Vec3 (- 6) 0 0] [Vec3 (19 / 100) 0 0, Vec3 (- (19 / 100)) 0 0] =
   Inr [Vec3 (- (1981 / 500)) 0 0, Vec3 (- (3019 / 500)) 0 0]"
  by (simp add: kernUpdatePos_launch_eq upt_0_2 kernUpdatePos_thread_def rd_def wr_def vec_defs
      wrap_def config_defs)

lemma two_agents_naive_step: "stepSimulationNaive (1 / 5) (initSimulation 2 mem2) =
   Inr (mem2\<lparr>numObjects := 2, gridCellWidth := 10, gridSideCount := 22,
    gridCellCount := 10648, gridInverseCellWidth := 1 / 10, gridMinimum := Vec3 (- 110) (- 110) (- 110),
    dev_pos := [Vec3 (- (1981 / 500)) 0 0, Vec3 (- (3019 / 500)) 0 0],
    dev_vel1 := [Vec3 (19 / 100) 0 0, Vec3 (- (19 / 100)) 0 0], dev_vel2 := [vzero, vzero]\<rparr>)"
  unfolding initSimulation_two_agents
  by (simp add: stepSimulationNaive_def mem2_def two_agents_brute_velocities two_agents_brute_positions)

lemma two_agents_scattered_step: "stepSimulationScatteredGrid (1 / 5) (initSimulation 2 mem2) =
   Inr (mem2\<lparr>numObjects := 2, gridCellWidth := 10, gridSideCount := 22,
    gridCellCount := 10648, gridInverseCellWidth := 1 / 10, gridMinimum := Vec3 (- 110) (- 110) (- 110),
    dev_pos := [Vec3 (- 4) 0 0, Vec3 (- (3019 / 500)) 0 0],
    dev_vel1 := [Vec3 0 0 0, Vec3 (- (19 / 100)) 0 0], dev_vel2 := [vzero, vzero],
    dev_particleArrayIndices := [1, 0], dev_particleGridIndices := [5069, 5070],
    dev_gridCellStartIndices := (replicate 10648 (- 1))[5069 := 0, 5070 := 1],
    dev_gridCellEndIndices := (replicate 10648 (- 1))[5069 := 1, 5070 := 2]\<rparr>)"
  unfolding initSimulation_two_agents
  by (simp add: stepSimulationScatteredGrid_def mem2_def two_agents_indices two_agents_sorted two_agents_buckets two_agents_grid_velocities two_agents_grid_positions)

lemma initSimulation_one_agent: "initSimulation 1 mem1 = mem1\<lparr>numObjects := 1, gridCellWidth := 10, gridSideCount := 22,
    gridCellCount := 10648, gridInverseCellWidth := 1 / 10, gridMinimum := Vec3 (- 110) (- 110) (- 110)\<rparr>"
  by (simp add: initSimulation_def config_defs float2int_def vec_defs mem1_def)

lemmas grid_eval = rd_def wr_def gridCoords_def vec_defs float2int_def neighborOffsets_def
  gridIndex3Dto1D_def Let_def rules0_def visit_eval scaleRules_def clampSpeed_eval config_defs

lemma one_agent_first_step: "stepSimulationScatteredGrid (1 / 5) (initSimulation 1 mem1) =
   Inr (mem1\<lparr>numObjects := 1, gridCellWidth := 10, gridSideCount := 22,
    gridCellCount := 10648, gridInverseCellWidth := 1 / 10, gridMinimum := Vec3 (- 110) (- 110) (- 110),
    dev_pos := [Vec3 (51 / 10) 0 0], dev_vel1 := [Vec3 1 0 0], dev_vel2 := [Vec3 1 0 0],
    dev_particleArrayIndices := [0], dev_particleGridIndices := [5070],
    dev_gridCellStartIndices := (replicate 10648 (- 1))[5070 := 0],
    dev_gridCellEndIndices := (replicate 10648 (- 1))[5070 := 1]\<rparr>)"
  unfolding initSimulation_one_agent
  by (simp add: stepSimulationScatteredGrid_def mem1_def
      kernComputeIndices_eq kernComputeIndices_thread_def sort_by_key_def
      kernIdentifyCellStartEnd_eq kernIdentifyCellStartEnd_thread_def
      kernUpdateVelNeighborSearchScattered_eq kernUpdateVelNeighborSearchScattered_thread_def
      kernUpdatePos_launch_eq kernUpdatePos_thread_def wrap_def launch_single grid_eval)

lemma one_agent_second_step: "stepSimulationScatteredGrid (1 / 5) (mem1\<lparr>numObjects := 1, gridCellWidth := 10, gridSideCount := 22,
    gridCellCount := 10648, gridInverseCellWidth := 1 / 10, gridMinimum := Vec3 (- 110) (- 110) (- 110),
    dev_pos := [Vec3 (51 / 10) 0 0], dev_vel1 := [Vec3 1 0 0], dev_vel2 := [Vec3 1 0 0],
    dev_particleArrayIndices := [0], dev_particleGridIndices := [5070],
    dev_gridCellStartIndices := (replicate 10648 (- 1))[5070 := 0],
    dev_gridCellEndIndices := (replicate 10648 (- 1))[5070 := 1]\<rparr>) =
   Inr (mem1\<lparr>numObjects := 1, gridCellWidth := 10, gridSideCount := 22,
    gridCellCount := 10648, gridInverseCellWidth := 1 / 10, gridMinimum := Vec3 (- 110) (- 110) (- 110),
    dev_pos := [Vec3 (53 / 10) 0 0], dev_vel1 := [Vec3 1 0 0], dev_vel2 := [Vec3 1 0 0],
    dev_particleArrayIndices := [0], dev_particleGridIndices := [5071],
    dev_gridCellStartIndices := (replicate 10648 (- 1))[5070 := 0, 5071 := 0],
    dev_gridCellEndIndices := (replicate 10648 (- 1))[5070 := 1, 5071 := 1]\<rparr>)"
  by (simp add: stepSimulationScatteredGrid_def mem1_def
      kernComputeIndices_eq kernComputeIndices_thread_def sort_by_key_def
      kernIdentifyCellStartEnd_eq kernIdentifyCellStartEnd_thread_def
      kernUpdateVelNeighborSearchScattered_eq kernUpdateVelNeighborSearchScattered_thread_def
      kernUpdatePos_launch_eq kernUpdatePos_thread_def wrap_def launch_single grid_eval)

lemma allocated_two_agents: "allocated (initSimulation 2 mem2)"
  unfolding initSimulation_two_agents by (simp add: allocated_def mem2_def)

lemma dev_pos_two_agents: "dev_pos (initSimulation 2 mem2) = [Vec3 (- 4) 0 0, Vec3 (- 6) 0 0]"
  unfolding initSimulation_two_agents by (simp add: mem2_def)

subsection \<open>The coherent kernel against the scattered kernel\<close>

lemma isPermutation_length: "isPermutation N P \<Longrightarrow> length P = N"
  by (metis isPermutation_def length_map length_upt minus_nat.diff_0 size_mset)

lemma isPermutation_distinct: "isPermutation N P \<Longrightarrow> distinct P"
proof -
  assume "isPermutation N P"
  moreover have "distinct (map int [0..<N])"
    by (simp add: distinct_map)
  ultimately show ?thesis
    by (metis isPermutation_def mset_eq_imp_distinct_iff)
qed

lemma isPermutation_range:
  assumes "isPermutation N P" "j < N"
  shows "0 \<le> P ! j \<and> P ! j < int N"
proof -
  from assms have "P ! j \<in> set P"
    by (simp add: isPermutation_length)
  also from assms(1) have "set P = set (map int [0..<N])"
    by (metis isPermutation_def mset_eq_setD)
  finally show ?thesis
    by auto
qed

lemma isPermutation_inj:
  "isPermutation N P \<Longrightarrow> i < N \<Longrightarrow> j < N \<Longrightarrow> P ! i = P ! j \<Longrightarrow> i = j"
  using isPermutation_distinct [of N P] isPermutation_length [of N P]
  by (simp add: nth_eq_iff_index_eq)

lemma mset_permuted:
  assumes "isPermutation N P" "length xs = N"
  shows "mset (permuted P xs) = mset xs"
proof -
  have "mset (permuted P xs) = image_mset (\<lambda>j. xs ! nat j) (mset P)"
    by (simp add: permuted_def)
  also have "\<dots> = image_mset (\<lambda>j. xs ! nat j) (mset (map int [0..<N]))"
    using assms(1) by (simp add: isPermutation_def)
  also have "\<dots> = mset (map ((!) xs) [0..<length xs])"
    by (simp add: assms(2) comp_def flip: mset_map)
  also have "\<dots> = mset xs"
    by (simp add: map_nth)
  finally show ?thesis .
qed

lemma sort_by_key_isPermutation:
  assumes "length keys = N" "vals = map int [0..<N]"
  shows "\<exists>keys' P. sort_by_key N keys vals = Inr (keys', P) \<and> isPermutation N P \<and>
           length keys' = N"
proof -
  let ?ps = "sort_key fst (zip keys vals)"
  have "mset (map snd ?ps) = image_mset snd (mset (zip keys vals))"
    by simp
  also have "\<dots> = mset (map snd (zip keys vals))"
    by simp
  also have "map snd (zip keys vals) = vals"
    using assms by simp
  finally have "isPermutation N (map snd ?ps)"
    by (simp add: isPermutation_def assms(2))
  moreover have "sort_by_key N keys vals = Inr (map fst ?ps, map snd ?ps)"
    using assms by (simp add: sort_by_key_def Let_def)
  moreover have "length (map fst ?ps) = N"
    using assms by simp
  ultimately show ?thesis
    by blast
qed

lemma kernComputeIndices_identity:
  assumes "length pos = N" "length indices = N" "length gridIndices = N"
  shows "\<exists>G. kernComputeIndices N R gmin icw pos (indices, gridIndices) =
           Inr (map int [0..<N], G) \<and> length G = N"
proof -
  from kernComputeIndices_launch [of N N pos indices gridIndices R gmin icw] assms
  obtain I G where k: "kernComputeIndices N R gmin icw pos (indices, gridIndices) = Inr (I, G)"
    "length I = N" "length G = N" "\<forall>i<N. I ! i = int i"
    by (auto simp: kernComputeIndices_eq)
  then have "I = map int [0..<N]"
    by (simp add: list_eq_iff_nth_eq)
  with k show ?thesis
    by simp
qed

lemma kernRearrangeArray_launch:
  assumes "isPermutation N P" "length pos = N" "length vel2 = N"
  shows "n \<le> N \<Longrightarrow> n \<le> length pos2 \<Longrightarrow> n \<le> length vel1 \<Longrightarrow>
     \<exists>b1 b2. launch [0..<n] (kernRearrangeArray_thread N P pos vel2) (pos2, vel1) = Inr (b1, b2) \<and>
       length b1 = length pos2 \<and> length b2 = length vel1 \<and>
       (\<forall>i<n. b1 ! i = pos ! nat (P ! i) \<and> b2 ! i = vel2 ! nat (P ! i))"
proof (induction n)
  case 0
  then show ?case by simp
next
  case (Suc n)
  then obtain b1 b2 where b:
    "launch [0..<n] (kernRearrangeArray_thread N P pos vel2) (pos2, vel1) = Inr (b1, b2)"
    "length b1 = length pos2" "length b2 = length vel1"
    "\<forall>i<n. b1 ! i = pos ! nat (P ! i) \<and> b2 ! i = vel2 ! nat (P ! i)"
    by auto
  from Suc.prems have n: "n < N"
    by simp
  from isPermutation_range [OF assms(1) n] isPermutation_length [OF assms(1)] n
  have "rd P (int n) = Inr (P ! n)" "rd pos (P ! n) = Inr (pos ! nat (P ! n))"
    "rd vel2 (P ! n) = Inr (vel2 ! nat (P ! n))"
    by (simp_all add: rd_def assms(2,3))
  with Suc.prems b n have "kernRearrangeArray_thread N P pos vel2 n (b1, b2) =
      Inr (b1[n := pos ! nat (P ! n)], b2[n := vel2 ! nat (P ! n)])"
    by (simp add: kernRearrangeArray_thread_def wr_int)
  with b Suc.prems show ?case
    by (auto simp: launch_snoc nth_list_update less_Suc_eq)
qed

lemma kernRearrangeArray_permuted:
  assumes "isPermutation N P" "length pos = N" "length vel2 = N" "length pos2 = N"
    "length vel1 = N"
  shows "kernRearrangeArray N P pos vel2 (pos2, vel1) = Inr (permuted P pos, permuted P vel2)"
proof -
  from kernRearrangeArray_launch [OF assms(1-3), of N pos2 vel1] assms(4,5)
  obtain b1 b2 where b: "kernRearrangeArray N P pos vel2 (pos2, vel1) = Inr (b1, b2)"
    "length b1 = N" "length b2 = N"
    "\<forall>i<N. b1 ! i = pos ! nat (P ! i) \<and> b2 ! i = vel2 ! nat (P ! i)"
    by (auto simp: kernRearrangeArray_eq)
  then have "b1 = permuted P pos" "b2 = permuted P vel2"
    using isPermutation_length [OF assms(1)]
    by (simp_all add: list_eq_iff_nth_eq permuted_def)
  with b show ?thesis
    by simp
qed

lemma length_permuted [simp]: "length (permuted P xs) = length P"
  by (simp add: permuted_def)

lemma nth_permuted: "i < length P \<Longrightarrow> permuted P xs ! i = xs ! nat (P ! i)"
  by (simp add: permuted_def)

lemma slotLoop_permuted:
  assumes "isPermutation N P" "length pos = N" "length vel1 = N"
  shows "slotLoopCoherent js (permuted P pos) (permuted P vel1) myPos r =
         slotLoopScattered js P pos vel1 myPos r"
proof (induction js arbitrary: r)
  case Nil
  then show ?case by simp
next
  case (Cons j js)
  note len = isPermutation_length [OF assms(1)]
  show ?case
  proof (cases "0 \<le> j \<and> j < int N")
    case True
    then have j: "nat j < N"
      by (simp add: nat_less_iff)
    from isPermutation_range [OF assms(1) j]
    have "rd pos (P ! nat j) = Inr (pos ! nat (P ! nat j))"
      "rd vel1 (P ! nat j) = Inr (vel1 ! nat (P ! nat j))"
      by (simp_all add: rd_def assms(2,3))
    moreover from True j have "rd P j = Inr (P ! nat j)"
      "rd (permuted P pos) j = Inr (pos ! nat (P ! nat j))"
      "rd (permuted P vel1) j = Inr (vel1 ! nat (P ! nat j))"
      by (simp_all add: rd_def len nth_permuted)
    ultimately show ?thesis
      by (simp add: Cons.IH)
  next
    case False
    then have "rd P j = Inl OutOfBounds" "rd (permuted P pos) j = Inl OutOfBounds"
      by (auto simp: rd_def len)
    then show ?thesis
      by simp
  qed
qed

lemma grid_thread_related:
  assumes "isPermutation N P" "length pos = N" "length vel1 = N" "t < N"
    "length b1 = N" "length b2 = N"
  shows "(\<exists>e. kernUpdateVelNeighborSearchScattered_thread N R gmin icw cw st en P pos vel1 t b1
                = Inl e \<and>
              kernUpdateVelNeighborSearchCoherent_thread N R gmin icw cw st en (permuted P pos)
                (permuted P vel1) t b2 = Inl e) \<or>
         (\<exists>v. kernUpdateVelNeighborSearchScattered_thread N R gmin icw cw st en P pos vel1 t b1
                = Inr (b1[nat (P ! t) := v]) \<and>
              kernUpdateVelNeighborSearchCoherent_thread N R gmin icw cw st en (permuted P pos)
                (permuted P vel1) t b2 = Inr (b2[t := v]))"
proof -
  note len = isPermutation_length [OF assms(1)]
  let ?p = "pos ! nat (P ! t)"
  let ?v = "vel1 ! nat (P ! t)"
  from isPermutation_range [OF assms(1,4)]
  have rng: "0 \<le> P ! t" "P ! t < int N"
    by simp_all
  then have reads: "rd P (int t) = Inr (P ! t)" "rd pos (P ! t) = Inr ?p" "rd vel1 (P ! t) = Inr ?v"
    "rd (permuted P pos) (int t) = Inr ?p" "rd (permuted P vel1) (int t) = Inr ?v"
    using assms(4) by (simp_all add: rd_def len assms(2,3) nth_permuted)
  have writes: "wr b1 (P ! t) w = Inr (b1[nat (P ! t) := w])" "wr b2 (int t) w = Inr (b2[t := w])" for w
    using rng assms(4) by (simp_all add: wr_def assms(5,6))
  have slots: "(\<lambda>js. slotLoopCoherent js (permuted P pos) (permuted P vel1) ?p) =
      (\<lambda>js. slotLoopScattered js P pos vel1 ?p)"
    by (intro ext) (rule slotLoop_permuted [OF assms(1-3)])
  let ?cells = "cellLoop (\<lambda>js. slotLoopScattered js P pos vel1 ?p) neighborOffsets R
      (gridCoords R gmin icw ?p) st en rules0"
  show ?thesis
  proof (cases ?cells)
    case (Inl e)
    with assms(4) show ?thesis
      by (simp add: kernUpdateVelNeighborSearchScattered_thread_def
          kernUpdateVelNeighborSearchCoherent_thread_def reads slots)
  next
    case r: (Inr r)
    show ?thesis
    proof (cases "scaleRules ?p r")
      case (Inl e)
      with r assms(4) show ?thesis
        by (simp add: kernUpdateVelNeighborSearchScattered_thread_def
            kernUpdateVelNeighborSearchCoherent_thread_def reads slots)
    next
      case (Inr c)
      obtain c1 c2 c3 where c: "c = (c1, c2, c3)"
        by (cases c) auto
      obtain w where w: "clampSpeed (vadd (vadd (vadd ?v c1) c2) c3) = Inr w"
        using clampSpeed_total by blast
      from r Inr c w assms(4) show ?thesis
        by (auto simp: kernUpdateVelNeighborSearchScattered_thread_def
            kernUpdateVelNeighborSearchCoherent_thread_def reads slots writes)
    qed
  qed
qed

lemma grid_launch_related:
  assumes "isPermutation N P" "length pos = N" "length vel1 = N"
    "length out1 = N" "length out2 = N"
  shows "n \<le> N \<Longrightarrow>
    (\<exists>e. launch [0..<n] (kernUpdateVelNeighborSearchScattered_thread N R gmin icw cw st en P
             pos vel1) out1 = Inl e \<and>
          launch [0..<n] (kernUpdateVelNeighborSearchCoherent_thread N R gmin icw cw st en
             (permuted P pos) (permuted P vel1)) out2 = Inl e) \<or>
    (\<exists>b1 b2. launch [0..<n] (kernUpdateVelNeighborSearchScattered_thread N R gmin icw cw st en P
             pos vel1) out1 = Inr b1 \<and>
          launch [0..<n] (kernUpdateVelNeighborSearchCoherent_thread N R gmin icw cw st en
             (permuted P pos) (permuted P vel1)) out2 = Inr b2 \<and>
          length b1 = N \<and> length b2 = N \<and> (\<forall>s<n. b2 ! s = b1 ! nat (P ! s)))"
proof (induction n)
  case 0
  then show ?case
    by (simp add: assms)
next
  case (Suc n)
  then have n: "n < N"
    by simp
  let ?S = "kernUpdateVelNeighborSearchScattered_thread N R gmin icw cw st en P pos vel1"
  let ?C = "kernUpdateVelNeighborSearchCoherent_thread N R gmin icw cw st en
             (permuted P pos) (permuted P vel1)"
  from Suc.IH n consider
    (err) e where "launch [0..<n] ?S out1 = Inl e" "launch [0..<n] ?C out2 = Inl e"
    | (ok) b1 b2 where "launch [0..<n] ?S out1 = Inr b1" "launch [0..<n] ?C out2 = Inr b2"
      "length b1 = N" "length b2 = N" "\<forall>s<n. b2 ! s = b1 ! nat (P ! s)"
    by auto
  then show ?case
  proof cases
    case err
    then show ?thesis
      by (simp add: launch_snoc)
  next
    case ok
    from grid_thread_related [OF assms(1-3) n ok(3,4), of R gmin icw cw st en]
    consider (terr) e where "?S n b1 = Inl e" "?C n b2 = Inl e"
      | (tok) v where "?S n b1 = Inr (b1[nat (P ! n) := v])" "?C n b2 = Inr (b2[n := v])"
      by blast
    then show ?thesis
    proof cases
      case terr
      with ok show ?thesis
        by (simp add: launch_snoc)
    next
      case tok
      from isPermutation_range [OF assms(1) n] have k: "nat (P ! n) < N"
        by (simp add: nat_less_iff)
      have "b2[n := v] ! s = b1[nat (P ! n) := v] ! nat (P ! s)" if "s < Suc n" for s
      proof (cases "s = n")
        case True
        with k n ok(3,4) show ?thesis
          by simp
      next
        case False
        with that n have s: "s < n" "s < N"
          by simp_all
        with isPermutation_inj [OF assms(1) s(2) n] isPermutation_range [OF assms(1) s(2)]
          isPermutation_range [OF assms(1) n]
        have "nat (P ! s) \<noteq> nat (P ! n)"
          by (auto simp: nat_eq_iff)
        with ok(5) s False show ?thesis
          by simp
      qed
      with ok tok show ?thesis
        by (simp add: launch_snoc)
    qed
  qed
qed

subsection \<open>No neighbour loop ends with a zero count\<close>


lemma wrap_range: "- scene_scale \<le> wrap c \<and> wrap c \<le> scene_scale"
  by (simp add: wrap_def scene_scale_def Let_def)

lemma inDomain_integrate: "inDomain (integrate dt p v)"
  by (simp add: inDomain_def integrate_def Let_def wrap_range)




lemma coord_range:
  assumes "- 100 \<le> c" "c \<le> (100::real)"
  shows "0 \<le> float2int (clampf ((c - (- 110)) * (1 / 10) - 1 / 2) 0 (of_int 22)) \<and>
         float2int (clampf ((c - (- 110)) * (1 / 10) - 1 / 2) 0 (of_int 22)) \<le> 20"
proof -
  define u where "u = (c - (- 110)) * (1 / 10) - 1 / 2"
  have u: "0 \<le> u" "u < 21" "u \<le> 22"
  proof -
    from assms show "0 \<le> u" unfolding u_def by (simp add: field_simps)
    from assms show "u < 21" unfolding u_def by (simp add: field_simps)
    from assms show "u \<le> 22" unfolding u_def by (simp add: field_simps)
  qed
  then have "clampf u 0 (of_int 22) = u"
    unfolding clampf_def min_def max_def by simp
  moreover from u have "0 \<le> \<lfloor>u\<rfloor>" "\<lfloor>u\<rfloor> \<le> 20"
    by (simp_all add: le_floor_iff floor_le_iff)
  ultimately have "0 \<le> float2int (clampf u 0 (of_int 22)) \<and>
      float2int (clampf u 0 (of_int 22)) \<le> 20"
    using u by (simp add: float2int_def)
  then show ?thesis
    unfolding u_def .
qed

lemma gridCoords_range:
  assumes "inDomain p" "gridCoords 22 (Vec3 (- 110) (- 110) (- 110)) (1 / 10) p = (x, y, z)"
  shows "0 \<le> x \<and> x \<le> 20 \<and> 0 \<le> y \<and> y \<le> 20 \<and> 0 \<le> z \<and> z \<le> 20"
  using assms coord_range [of "vx p"] coord_range [of "vy p"] coord_range [of "vz p"]
  by (simp add: gridCoords_def inDomain_def scene_scale_def Let_def vclamp_def vsplat_def
      vsub_def vscale_def)

lemma cellOf_range:
  assumes "inDomain p"
  shows "0 \<le> cellOf 22 (Vec3 (- 110) (- 110) (- 110)) (1 / 10) p \<and>
         cellOf 22 (Vec3 (- 110) (- 110) (- 110)) (1 / 10) p < 10648"
proof -
  obtain x y z where g: "gridCoords 22 (Vec3 (- 110) (- 110) (- 110)) (1 / 10) p = (x, y, z)"
    by (cases "gridCoords 22 (Vec3 (- 110) (- 110) (- 110)) (1 / 10) p") auto
  from gridCoords_range [OF assms g] show ?thesis
    by (simp add: cellOf_def g gridIndex3Dto1D_def)
qed






lemma sort_by_key_sorted:
  assumes "length keys = N" "vals = map int [0..<N]"
  shows "\<exists>keys' P. sort_by_key N keys vals = Inr (keys', P) \<and> isPermutation N P \<and>
           length keys' = N \<and> sorted keys' \<and> (\<forall>t<N. keys' ! t = keys ! nat (P ! t))"
proof -
  let ?ps = "sort_key fst (zip keys vals)"
  have len: "length ?ps = N"
    using assms by simp
  have "mset (map snd ?ps) = image_mset snd (mset (zip keys vals))"
    by simp
  also have "\<dots> = mset (map snd (zip keys vals))"
    by simp
  also have "map snd (zip keys vals) = vals"
    using assms by simp
  finally have perm: "isPermutation N (map snd ?ps)"
    by (simp add: isPermutation_def assms(2))
  have paired: "map fst ?ps ! t = keys ! nat (map snd ?ps ! t)" if "t < N" for t
  proof -
    from that len have "?ps ! t \<in> set ?ps"
      by (intro nth_mem) simp
    then have "?ps ! t \<in> set (zip keys vals)"
      by (simp only: set_sort)
    then obtain i where "i < N" "?ps ! t = (keys ! i, vals ! i)"
      using assms by (auto simp: in_set_zip)
    with that len assms(2) show ?thesis
      by simp
  qed
  have "sort_by_key N keys vals = Inr (map fst ?ps, map snd ?ps)"
    using assms by (simp add: sort_by_key_def Let_def)
  moreover have "sorted (map fst ?ps)"
    by (rule sorted_sort_key)
  ultimately show ?thesis
    using perm len paired by (intro exI [of _ "map fst ?ps"] exI [of _ "map snd ?ps"]) simp
qed






lemma grid_built:
  fixes s
  defines "N \<equiv> numObjects s" and "pos \<equiv> dev_pos s"
  assumes "allocated s" "gridReady s" "list_all inDomain (dev_pos s)"
  shows "\<exists>G keys P st en.
     kernComputeIndices N (gridSideCount s) (gridMinimum s) (gridInverseCellWidth s) pos
       (dev_particleArrayIndices s, dev_particleGridIndices s) = Inr (map int [0..<N], G) \<and>
     sort_by_key N G (map int [0..<N]) = Inr (keys, P) \<and>
     kernIdentifyCellStartEnd N keys (dev_gridCellStartIndices s, dev_gridCellEndIndices s)
       = Inr (st, en) \<and>
     isPermutation N P \<and> length keys = N \<and>
     length st = length (dev_gridCellStartIndices s) \<and>
     length en = length (dev_gridCellEndIndices s) \<and>
     (\<forall>t<N. inDomain (pos ! nat (P ! t)) \<and>
        nat (cellOf 22 (Vec3 (- 110) (- 110) (- 110)) (1 / 10) (pos ! nat (P ! t))) < length st \<and>
        nat (cellOf 22 (Vec3 (- 110) (- 110) (- 110)) (1 / 10) (pos ! nat (P ! t))) < length en \<and>
        st ! nat (cellOf 22 (Vec3 (- 110) (- 110) (- 110)) (1 / 10) (pos ! nat (P ! t))) \<le> int t \<and>
        int t < en ! nat (cellOf 22 (Vec3 (- 110) (- 110) (- 110)) (1 / 10) (pos ! nat (P ! t))))"
proof -
  let ?gmin = "Vec3 (- 110) (- 110) (- 110)"
  let ?cell = "cellOf 22 ?gmin (1 / 10)"
  from assms(3) have len: "length pos = N" "length (dev_particleArrayIndices s) = N"
    "length (dev_particleGridIndices s) = N"
    "length (dev_gridCellStartIndices s) = 10648" "length (dev_gridCellEndIndices s) = 10648"
    using assms(4) by (simp_all add: allocated_def gridReady_def N_def pos_def)
  from assms(4) have grid: "gridSideCount s = 22" "gridMinimum s = ?gmin"
    "gridInverseCellWidth s = 1 / 10"
    by (simp_all add: gridReady_def)
  from assms(5) have dom: "inDomain (pos ! i)" if "i < N" for i
    using that len(1) by (simp add: list_all_length pos_def)
  from kernComputeIndices_launch [of N N pos "dev_particleArrayIndices s"
      "dev_particleGridIndices s" 22 ?gmin "1 / 10"] len
  obtain I G where ci: "kernComputeIndices N 22 ?gmin (1 / 10) pos
      (dev_particleArrayIndices s, dev_particleGridIndices s) = Inr (I, G)"
    and IG: "length I = N" "length G = N" "\<forall>i<N. I ! i = int i \<and> G ! i = ?cell (pos ! i)"
    by (auto simp: kernComputeIndices_eq)
  then have I: "I = map int [0..<N]"
    by (simp add: list_eq_iff_nth_eq)
  from sort_by_key_sorted [OF IG(2) refl]
  obtain keys P where sk: "sort_by_key N G (map int [0..<N]) = Inr (keys, P)"
    and P: "isPermutation N P" and keys: "length keys = N" "sorted keys"
    "\<forall>t<N. keys ! t = G ! nat (P ! t)"
    by blast
  have k: "nat (P ! t) < N" if "t < N" for t
    using isPermutation_range [OF P that] by (simp add: nat_less_iff)
  have key: "keys ! t = ?cell (pos ! nat (P ! t))" if "t < N" for t
    using that keys(3) IG(3) k [OF that] by simp
  have rng: "0 \<le> keys ! t \<and> keys ! t < 10648" if "t < N" for t
    using cellOf_range [OF dom [OF k [OF that]]] key [OF that] by simp
  have "\<exists>st en. kernIdentifyCellStartEnd N keys
      (dev_gridCellStartIndices s, dev_gridCellEndIndices s) = Inr (st, en) \<and>
       length st = length (dev_gridCellStartIndices s) \<and>
       length en = length (dev_gridCellEndIndices s) \<and>
       (\<forall>c. if \<exists>i<N. keys ! i = int c
            then 0 \<le> st ! c \<and> st ! c < en ! c \<and> en ! c \<le> int N \<and>
                 (\<forall>i<N. (st ! c \<le> int i \<and> int i < en ! c) = (keys ! i = int c))
            else st ! c = dev_gridCellStartIndices s ! c \<and> en ! c = dev_gridCellEndIndices s ! c)"
    by (rule kernIdentifyCellStartEnd_tables) (use keys rng len in auto)
  then obtain st en where id: "kernIdentifyCellStartEnd N keys
      (dev_gridCellStartIndices s, dev_gridCellEndIndices s) = Inr (st, en)"
    and lst: "length st = 10648" "length en = 10648"
    and tabs: "\<And>c. if \<exists>i<N. keys ! i = int c
            then 0 \<le> st ! c \<and> st ! c < en ! c \<and> en ! c \<le> int N \<and>
                 (\<forall>i<N. (st ! c \<le> int i \<and> int i < en ! c) = (keys ! i = int c))
            else st ! c = dev_gridCellStartIndices s ! c \<and> en ! c = dev_gridCellEndIndices s ! c"
    by (auto simp: len)
  have slot: "inDomain (pos ! nat (P ! t)) \<and>
        nat (?cell (pos ! nat (P ! t))) < length st \<and>
        nat (?cell (pos ! nat (P ! t))) < length en \<and>
        st ! nat (?cell (pos ! nat (P ! t))) \<le> int t \<and>
        int t < en ! nat (?cell (pos ! nat (P ! t)))" if "t < N" for t
  proof -
    let ?c = "nat (?cell (pos ! nat (P ! t)))"
    from rng [OF that] key [OF that] have c: "keys ! t = int ?c" "?c < 10648"
      by (simp_all add: nat_less_iff)
    with that have "\<exists>i<N. keys ! i = int ?c"
      by blast
    with tabs [of ?c] have "\<forall>i<N. (st ! ?c \<le> int i \<and> int i < en ! ?c) = (keys ! i = int ?c)"
      by simp
    with that c(1) have "st ! ?c \<le> int t \<and> int t < en ! ?c"
      by blast
    with c(2) dom [OF k [OF that]] show ?thesis
      by (simp add: lst)
  qed
  from ci sk id P slot keys(1) lst len(4,5) show ?thesis
    unfolding grid I by auto
qed





text \<open>The three conditions on a state are kept by every step that returns.\<close>

lemma kernUpdatePos_inDomain:
  assumes "length pos = N" "N \<le> length vel"
  shows "\<exists>pos'. kernUpdatePos N dt pos vel = Inr pos' \<and> length pos' = N \<and>
           list_all inDomain pos'"
proof -
  from kernUpdatePos_eq [of N pos vel dt] assms
  obtain pos' where "kernUpdatePos N dt pos vel = Inr pos'" "length pos' = N"
    "\<forall>i<N. pos' ! i = integrate dt (pos ! i) (vel ! i)"
    by auto
  then show ?thesis
    by (auto simp: list_all_length inDomain_integrate)
qed

lemma steps_keep_state_valid:
  assumes "allocated s" "gridReady s" "list_all inDomain (dev_pos s)"
  shows "(\<forall>s'. stepSimulationNaive dt s = Inr s' \<longrightarrow>
            allocated s' \<and> gridReady s' \<and> list_all inDomain (dev_pos s')) \<and>
         (\<forall>s'. stepSimulationScatteredGrid dt s = Inr s' \<longrightarrow>
            allocated s' \<and> gridReady s' \<and> list_all inDomain (dev_pos s')) \<and>
         (\<forall>s'. stepSimulationCoherentGrid dt s = Inr s' \<longrightarrow>
            allocated s' \<and> gridReady s' \<and> list_all inDomain (dev_pos s'))"
proof -
  let ?N = "numObjects s"
  let ?pos = "dev_pos s"
  let ?vel = "dev_vel1 s"
  let ?gmin = "Vec3 (- 110) (- 110) (- 110)"
  let ?cw = "gridCellWidth s"
  from assms(1) have len: "length ?pos = ?N" "length (dev_pos2 s) = ?N"
    "length ?vel = ?N" "length (dev_vel2 s) = ?N"
    by (simp_all add: allocated_def)
  from assms(2) have grid: "gridSideCount s = 22" "gridMinimum s = ?gmin"
    "gridInverseCellWidth s = 1 / 10"
    by (simp_all add: gridReady_def)
  from grid_built [OF assms(1-3)]
  obtain G keys P st en where
    ci: "kernComputeIndices ?N (gridSideCount s) (gridMinimum s) (gridInverseCellWidth s) ?pos
       (dev_particleArrayIndices s, dev_particleGridIndices s) = Inr (map int [0..<?N], G)"
    and sk: "sort_by_key ?N G (map int [0..<?N]) = Inr (keys, P)"
    and id: "kernIdentifyCellStartEnd ?N keys
       (dev_gridCellStartIndices s, dev_gridCellEndIndices s) = Inr (st, en)"
    and P: "isPermutation ?N P" and lens: "length keys = ?N"
      "length st = length (dev_gridCellStartIndices s)"
      "length en = length (dev_gridCellEndIndices s)"
    by blast
  note lenP = isPermutation_length [OF P]
  note ra = kernRearrangeArray_permuted [OF P len(1,3,2,4)]
  let ?S = "kernUpdateVelNeighborSearchScattered ?N 22 ?gmin (1 / 10) ?cw st en P
             ?pos ?vel (dev_vel2 s)"
  let ?C = "kernUpdateVelNeighborSearchCoherent ?N 22 ?gmin (1 / 10) ?cw st en
             (permuted P ?pos) (permuted P ?vel) ?vel"
  from grid_launch_related [OF P len(1,3,4,3) le_refl, of 22 ?gmin "1 / 10" ?cw st en]
  have outs: "(\<forall>b. ?S = Inr b \<longrightarrow> length b = ?N) \<and> (\<forall>b. ?C = Inr b \<longrightarrow> length b = ?N)"
    unfolding kernUpdateVelNeighborSearchScattered_eq kernUpdateVelNeighborSearchCoherent_eq
    by auto
  have naive: "allocated s' \<and> gridReady s' \<and> list_all inDomain (dev_pos s')"
    if "stepSimulationNaive dt s = Inr s'" for s'
  proof -
    from that obtain v2 pos' where k: "kernUpdateVelocityBruteForce ?N ?pos ?vel (dev_vel2 s) = Inr v2"
      and u: "kernUpdatePos ?N dt ?pos v2 = Inr pos'"
      and s': "s' = s\<lparr>dev_pos := pos', dev_vel1 := v2, dev_vel2 := ?vel\<rparr>"
      by (auto simp: stepSimulationNaive_def bindE_eq_Inr)
    from kernUpdateVelocityBruteForce_Inr [OF k] len have v2: "length v2 = ?N"
      by simp
    with kernUpdatePos_inDomain [of ?pos ?N v2 dt] len u
    have "length pos' = ?N" "list_all inDomain pos'"
      by auto
    with v2 assms(1,2) len show ?thesis
      by (simp add: s' allocated_def gridReady_def)
  qed
  have scattered: "allocated s' \<and> gridReady s' \<and> list_all inDomain (dev_pos s')"
    if "stepSimulationScatteredGrid dt s = Inr s'" for s'
  proof -
    from that ci sk id obtain v2 pos' where k: "?S = Inr v2"
      and u: "kernUpdatePos ?N dt ?pos v2 = Inr pos'"
      and s': "s' = s\<lparr>dev_pos := pos', dev_vel1 := v2, dev_vel2 := ?vel,
                  dev_particleArrayIndices := P, dev_particleGridIndices := keys,
                  dev_gridCellStartIndices := st, dev_gridCellEndIndices := en\<rparr>"
      by (auto simp: stepSimulationScatteredGrid_def grid bindE_eq_Inr Let_def)
    from outs k have v2: "length v2 = ?N"
      by simp
    with kernUpdatePos_inDomain [of ?pos ?N v2 dt] len u
    have "length pos' = ?N" "list_all inDomain pos'"
      by auto
    with v2 assms(1,2) len lens lenP show ?thesis
      by (simp add: s' allocated_def gridReady_def)
  qed
  have coherent: "allocated s' \<and> gridReady s' \<and> list_all inDomain (dev_pos s')"
    if "stepSimulationCoherentGrid dt s = Inr s'" for s'
  proof -
    from that ci sk id ra obtain v1 pos' where k: "?C = Inr v1"
      and u: "kernUpdatePos ?N dt (permuted P ?pos) v1 = Inr pos'"
      and s': "s' = s\<lparr>dev_pos := pos', dev_pos2 := ?pos, dev_vel1 := v1,
                  dev_vel2 := permuted P ?vel,
                  dev_particleArrayIndices := P, dev_particleGridIndices := keys,
                  dev_gridCellStartIndices := st, dev_gridCellEndIndices := en\<rparr>"
      by (auto simp: stepSimulationCoherentGrid_def grid bindE_eq_Inr Let_def)
    from outs k have v1: "length v1 = ?N"
      by simp
    with kernUpdatePos_inDomain [of "permuted P ?pos" ?N v1 dt] lenP u
    have "length pos' = ?N" "list_all inDomain pos'"
      by auto
    with v1 assms(1,2) len lens lenP show ?thesis
      by (simp add: s' allocated_def gridReady_def)
  qed
  from naive scattered coherent show ?thesis
    by blast
qed

section \<open>Claims about the rule evaluation\<close>

text \<open>
  C10: in the brute-force variant, for every \<open>N \<ge> 1\<close> and every agent \<open>iSelf < N\<close>, the
  neighbour loop over all \<open>N\<close> agents ends with a rule-1 count and a rule-3 count of at
  least one, because the agent meets itself at distance zero; the divisions by the two
  counts are therefore never divisions by zero and \<^verbatim>\<open>computeVelocityChange\<close> returns a
  finite velocity change.
\<close>

theorem bruteForce_counts_positive:
  assumes "iSelf < N" "N \<le> length pos" "N \<le> length vel"
  shows "\<exists>r. neighborLoop [0..<N] pos vel (pos ! iSelf) rules0 = Inr r \<and>
           1 \<le> rule1Cnt r \<and> 1 \<le> rule3Cnt r \<and>
           (\<exists>dv. computeVelocityChange N iSelf pos vel = Inr dv)"
proof -
  from assms have "iSelf \<in> set [0..<N]" "\<forall>i\<in>set [0..<N]. i < length pos \<and> i < length vel"
    by auto
  from neighborLoop_self_counted [OF this, of rules0]
  obtain r where r: "neighborLoop [0..<N] pos vel (pos ! iSelf) rules0 = Inr r"
    "1 \<le> rule1Cnt r" "1 \<le> rule3Cnt r"
    by (auto simp: rules0_def)
  then obtain c where "scaleRules (pos ! iSelf) r = Inr c"
    using scaleRules_total [of r "pos ! iSelf"] by auto
  with r assms have "computeVelocityChange N iSelf pos vel = Inr (sumRules c)"
    by (simp add: computeVelocityChange_def rd_int)
  with r show ?thesis
    by blast
qed

theorem bruteForce_counts_positive_witness:
  "\<exists>r. neighborLoop [0..<1] [Vec3 1 2 3] [Vec3 0 0 0] ([Vec3 1 2 3] ! 0) rules0 = Inr r \<and>
        1 \<le> rule1Cnt r \<and> 1 \<le> rule3Cnt r \<and>
        (\<exists>dv. computeVelocityChange 1 0 [Vec3 1 2 3] [Vec3 0 0 0] = Inr dv)"
  using bruteForce_counts_positive [of 0 1 "[Vec3 1 2 3]" "[Vec3 0 0 0]"] by simp

text \<open>
  C9: in the brute-force variant the candidates of every agent are all \<open>N\<close> agents, the
  agent itself among them. The loop meets the agent itself exactly once, between the
  candidates before it and those after it, and that visit adds the agent's own position
  to the rule-1 sum and its own velocity to the rule-3 sum, increments both counts by
  exactly one, and leaves the rule-2 sum as it was.
\<close>

theorem bruteForce_self_is_neighbor:
  assumes "iSelf < N" "N \<le> length pos" "N \<le> length vel"
  shows "iSelf \<in> set [0..<N] \<and> set [0..<N] = {i. i < N} \<and>
    computeVelocityChange N iSelf pos vel =
      bindE (neighborLoop [0..<N] pos vel (pos ! iSelf) rules0) (\<lambda>r.
      bindE (scaleRules (pos ! iSelf) r) (\<lambda>c. Inr (sumRules c))) \<and>
    (\<exists>ra. neighborLoop [0..<iSelf] pos vel (pos ! iSelf) rules0 = Inr ra \<and>
       neighborLoop [0..<N] pos vel (pos ! iSelf) rules0 =
         neighborLoop [Suc iSelf..<N] pos vel (pos ! iSelf)
           (ra\<lparr>rule1 := vadd (rule1 ra) (pos ! iSelf), rule1Cnt := rule1Cnt ra + 1,
               rule3 := vadd (rule3 ra) (vel ! iSelf), rule3Cnt := rule3Cnt ra + 1\<rparr>))"
proof -
  let ?p = "pos ! iSelf"
  from assms have "\<forall>i\<in>set [0..<iSelf]. i < length pos \<and> i < length vel"
    by auto
  from neighborLoop_total [OF this]
  obtain ra where ra: "neighborLoop [0..<iSelf] pos vel ?p rules0 = Inr ra"
    by blast
  from assms(1) have "[0..<N] = [0..<iSelf] @ iSelf # [Suc iSelf..<N]"
    by (rule upt_split)
  then have "neighborLoop [0..<N] pos vel ?p rules0 =
      neighborLoop [Suc iSelf..<N] pos vel ?p (visit ?p ?p (vel ! iSelf) ra)"
    using assms by (simp add: neighborLoop_append ra rd_int)
  moreover have "computeVelocityChange N iSelf pos vel =
      bindE (neighborLoop [0..<N] pos vel ?p rules0) (\<lambda>r.
      bindE (scaleRules ?p r) (\<lambda>c. Inr (sumRules c)))"
    using assms by (simp add: computeVelocityChange_def rd_int)
  ultimately show ?thesis
    using ra assms(1) by (auto simp: visit_self)
qed

theorem bruteForce_self_is_neighbor_witness:
  "(0::nat) \<in> set [0..<2] \<and> set [0..<2] = {i. i < (2::nat)} \<and>
    computeVelocityChange 2 0 [Vec3 1 2 3, Vec3 0 0 0] [Vec3 4 5 6, Vec3 0 0 0] =
      bindE (neighborLoop [0..<2] [Vec3 1 2 3, Vec3 0 0 0] [Vec3 4 5 6, Vec3 0 0 0]
               ([Vec3 1 2 3, Vec3 0 0 0] ! 0) rules0) (\<lambda>r.
      bindE (scaleRules ([Vec3 1 2 3, Vec3 0 0 0] ! 0) r) (\<lambda>c. Inr (sumRules c))) \<and>
    (\<exists>ra. neighborLoop [0..<0] [Vec3 1 2 3, Vec3 0 0 0] [Vec3 4 5 6, Vec3 0 0 0] 
            ([Vec3 1 2 3, Vec3 0 0 0] ! 0) rules0 = Inr ra \<and>
       neighborLoop [0..<2] [Vec3 1 2 3, Vec3 0 0 0] [Vec3 4 5 6, Vec3 0 0 0] 
            ([Vec3 1 2 3, Vec3 0 0 0] ! 0) rules0 =
         neighborLoop [Suc 0..<2] [Vec3 1 2 3, Vec3 0 0 0] [Vec3 4 5 6, Vec3 0 0 0] 
            ([Vec3 1 2 3, Vec3 0 0 0] ! 0)
           (ra\<lparr>rule1 := vadd (rule1 ra) ([Vec3 1 2 3, Vec3 0 0 0] ! 0), rule1Cnt := rule1Cnt ra + 1,
               rule3 := vadd (rule3 ra) ([Vec3 4 5 6, Vec3 0 0 0] ! 0), rule3Cnt := rule3Cnt ra + 1\<rparr>))"
  using bruteForce_self_is_neighbor [of 0 2 "[Vec3 1 2 3, Vec3 0 0 0]" "[Vec3 4 5 6, Vec3 0 0 0]"]
  by simp



section \<open>Claims about the speed clamp and the position integrator\<close>



text \<open>
  C8, as amended: an agent exactly at the positive boundary with zero velocity stays at
  the boundary. A coordinate that the step carries past the positive boundary is set to
  the negative boundary exactly, whatever the overflow; one carried below the negative
  boundary is set to the positive boundary; any other coordinate is the integrated one.
\<close>

theorem kernUpdatePos_teleports:
  assumes "i < N" "N \<le> length pos" "N \<le> length vel" "ax \<in> {vx, vy, vz}"
  shows "\<exists>pos'. kernUpdatePos N dt pos vel = Inr pos' \<and>
     (ax (pos ! i) = scene_scale \<and> ax (vel ! i) = 0 \<longrightarrow> ax (pos' ! i) = scene_scale) \<and>
     (ax (pos ! i) + ax (vel ! i) * dt > scene_scale \<longrightarrow> ax (pos' ! i) = - scene_scale) \<and>
     (ax (pos ! i) + ax (vel ! i) * dt < - scene_scale \<longrightarrow> ax (pos' ! i) = scene_scale) \<and>
     (- scene_scale \<le> ax (pos ! i) + ax (vel ! i) * dt \<and>
      ax (pos ! i) + ax (vel ! i) * dt \<le> scene_scale \<longrightarrow>
        ax (pos' ! i) = ax (pos ! i) + ax (vel ! i) * dt)"
proof -
  from kernUpdatePos_eq [OF assms(2,3), of dt] assms(1)
  obtain pos' where p: "kernUpdatePos N dt pos vel = Inr pos'"
    "pos' ! i = integrate dt (pos ! i) (vel ! i)"
    by auto
  have "ax (pos' ! i) = wrap (ax (pos ! i) + ax (vel ! i) * dt)"
    using assms(4) by (auto simp: p integrate_def Let_def vadd_def vscale_def)
  then show ?thesis
    using p(1) by (auto simp: wrap_def scene_scale_def Let_def)
qed

theorem kernUpdatePos_teleports_witness:
  "\<exists>pos'. kernUpdatePos 1 1 [Vec3 100 50 (-100)] [Vec3 0 60 (-1)] = Inr pos' \<and>
     vx (pos' ! 0) = scene_scale \<and> vy (pos' ! 0) = - scene_scale \<and> vz (pos' ! 0) = scene_scale"
  using kernUpdatePos_teleports [of 0 1 "[Vec3 100 50 (-100)]" "[Vec3 0 60 (-1)]" vx 1]
    kernUpdatePos_teleports [of 0 1 "[Vec3 100 50 (-100)]" "[Vec3 0 60 (-1)]" vy 1]
    kernUpdatePos_teleports [of 0 1 "[Vec3 100 50 (-100)]" "[Vec3 0 60 (-1)]" vz 1]
  by (auto simp: scene_scale_def)

theorem wrap_overflow_counterexample:
  "kernUpdatePos 1 1 [Vec3 100 0 0] [Vec3 1 0 0] = Inr [Vec3 (- 100) 0 0] \<and>
   100 + 1 * 1 - scene_scale = 1 \<and> - scene_scale + 1 \<noteq> - 100"
proof -
  have "kernUpdatePos 1 1 [Vec3 100 0 0] [Vec3 1 0 0] =
      launch [0..<1] (kernUpdatePos_thread 1 1 [Vec3 1 0 0]) [Vec3 100 0 0]"
    unfolding kernUpdatePos_def by (rule launch_threadIds) (simp add: kernUpdatePos_thread_def)
  then show ?thesis
    by (simp add: launch_single kernUpdatePos_thread_def rd_def wr_def vadd_def vscale_def wrap_def
        scene_scale_def)
qed

section \<open>Claims about the grid index\<close>

text \<open>
  C6: for every agent \<open>i < N\<close> the Spatial Hash Indexer computes, per axis,
  \<open>clamp(floor((pos - gridMin) * invCellWidth - 0.5), 0, gridSideCount)\<close> and from the three
  coordinates the cell id \<open>x + y * side + z * side\<^sup>2\<close>. It writes exactly two outputs:
  slot \<open>i\<close> of the index array receives \<open>i\<close> itself and slot \<open>i\<close> of the cell array
  receives the cell id; the kernel always returns and changes nothing beyond slot \<open>N\<close>.
\<close>

theorem kernComputeIndices_spec:
  assumes "N \<le> length pos" "N \<le> length indices" "N \<le> length gridIndices"
  shows "\<exists>I G. kernComputeIndices N side gridMin invCellWidth pos (indices, gridIndices)
                 = Inr (I, G) \<and>
     length I = length indices \<and> length G = length gridIndices \<and>
     (\<forall>i<N. I ! i = int i \<and> G ! i = spec_cellId side gridMin invCellWidth (pos ! i)) \<and>
     (\<forall>i\<ge>N. I ! i = indices ! i \<and> G ! i = gridIndices ! i)"
  using kernComputeIndices_launch [of N N pos indices gridIndices side gridMin invCellWidth] assms
  by (simp add: kernComputeIndices_eq cellOf_spec)

theorem kernComputeIndices_spec_witness:
  "\<exists>I G. kernComputeIndices 1 22 (Vec3 (-110) (-110) (-110)) (1 / 10) [Vec3 (-4) 0 0] ([7], [9])
                 = Inr (I, G) \<and> I ! 0 = 0 \<and> G ! 0 = 5070"
proof -
  have "spec_cellId 22 (Vec3 (-110) (-110) (-110)) (1 / 10) (Vec3 (-4) 0 0) = 5070"
    by (simp add: spec_cellId_def spec_cellCoord_def)
  with kernComputeIndices_spec [of 1 "[Vec3 (-4) 0 0]" "[7]" "[9]" 22 "Vec3 (-110) (-110) (-110)" "1 / 10"]
  show ?thesis
    by auto
qed

text \<open>
  C5: let the cell ids of the first \<open>N\<close> slots be sorted ascending and lie in \<open>[0, C)\<close>,
  and let both tables be freshly reset by \<^verbatim>\<open>kernResetIntBuffer\<close> to one sentinel \<open>v\<close>.
  Then the Cell Bucket Locator returns tables in which every occupied cell has
  \<open>0 \<le> start < end \<le> N\<close> and its range \<open>[start, end)\<close> holds exactly the slots of that
  cell, a contiguous run; every empty cell keeps the sentinel in both tables; and every
  slot of \<open>[0, N)\<close> lies in the range of exactly one cell, so the ranges cover \<open>[0, N)\<close>
  without gap or overlap.
\<close>

theorem bucket_table_complete:
  assumes "sorted (take N gs)" "N \<le> length gs" "\<forall>i<N. 0 \<le> gs ! i \<and> gs ! i < int C"
    "length b1 = C" "length b2 = C"
    "kernResetIntBuffer C b1 v = Inr st0" "kernResetIntBuffer C b2 v = Inr en0"
  shows "\<exists>st en. kernIdentifyCellStartEnd N gs (st0, en0) = Inr (st, en) \<and>
       length st = C \<and> length en = C \<and>
       (\<forall>c<C. if \<exists>i<N. gs ! i = int c
            then 0 \<le> st ! c \<and> st ! c < en ! c \<and> en ! c \<le> int N \<and>
                 (\<forall>i<N. (st ! c \<le> int i \<and> int i < en ! c) = (gs ! i = int c))
            else st ! c = v \<and> en ! c = v) \<and>
       (\<forall>i<N. \<exists>!c. c < C \<and> st ! c \<le> int i \<and> int i < en ! c)"
proof -
  have st0: "st0 = replicate C v" and en0: "en0 = replicate C v"
    using assms(4-7) by (simp_all add: kernResetIntBuffer_eq)
  from assms(3) have "\<forall>i<N. 0 \<le> gs ! i \<and> gs ! i < int (length st0) \<and> gs ! i < int (length en0)"
    by (simp add: st0 en0)
  from kernIdentifyCellStartEnd_tables [OF assms(1,2) this]
  obtain st en where k: "kernIdentifyCellStartEnd N gs (st0, en0) = Inr (st, en)"
    "length st = C" "length en = C"
    and t: "\<And>c. if \<exists>i<N. gs ! i = int c
            then 0 \<le> st ! c \<and> st ! c < en ! c \<and> en ! c \<le> int N \<and>
                 (\<forall>i<N. (st ! c \<le> int i \<and> int i < en ! c) = (gs ! i = int c))
            else st ! c = st0 ! c \<and> en ! c = en0 ! c"
    by (auto simp: st0 en0)
  have cells: "if \<exists>i<N. gs ! i = int c
            then 0 \<le> st ! c \<and> st ! c < en ! c \<and> en ! c \<le> int N \<and>
                 (\<forall>i<N. (st ! c \<le> int i \<and> int i < en ! c) = (gs ! i = int c))
            else st ! c = v \<and> en ! c = v" if "c < C" for c
    using t [of c] that by (auto simp: st0 en0 split: if_splits)
  have "\<exists>!c. c < C \<and> st ! c \<le> int i \<and> int i < en ! c" if "i < N" for i
  proof (rule ex1I [of _ "nat (gs ! i)"])
    from assms(3) that have c: "nat (gs ! i) < C" "gs ! i = int (nat (gs ! i))"
      by auto
    with cells [OF c(1)] that show "nat (gs ! i) < C \<and> st ! nat (gs ! i) \<le> int i \<and> int i < en ! nat (gs ! i)"
      by (auto split: if_splits)
  next
    fix c
    assume c: "c < C \<and> st ! c \<le> int i \<and> int i < en ! c"
    with cells [of c] have "\<forall>j<N. (st ! c \<le> int j \<and> int j < en ! c) = (gs ! j = int c)"
      by (auto split: if_splits)
    with c \<open>i < N\<close> have "gs ! i = int c"
      by blast
    then show "c = nat (gs ! i)"
      by simp
  qed
  with k cells show ?thesis
    by blast
qed

theorem bucket_table_complete_witness:
  "\<exists>st en. kernIdentifyCellStartEnd 3 [1, 1, 2] (replicate 3 (- 1), replicate 3 (- 1)) = Inr (st, en) \<and>
       length st = 3 \<and> length en = 3 \<and>
       (\<forall>c<3. if \<exists>i<3. [1, 1, 2] ! i = int c
            then 0 \<le> st ! c \<and> st ! c < en ! c \<and> en ! c \<le> int 3 \<and>
                 (\<forall>i<3. (st ! c \<le> int i \<and> int i < en ! c) = ([1, 1, 2] ! i = int c))
            else st ! c = - 1 \<and> en ! c = - 1) \<and>
       (\<forall>i<3. \<exists>!c. c < 3 \<and> st ! c \<le> int i \<and> int i < en ! c)"
proof -
  have "\<forall>i<3. 0 \<le> [1, 1, 2 :: int] ! i \<and> [1, 1, 2] ! i < int 3"
    by (simp add: nth_Cons' All_less_Suc eval_nat_numeral)
  moreover have "kernResetIntBuffer 3 [5, 5, 5] (- 1) = Inr (replicate 3 (- 1))"
    by (rule kernResetIntBuffer_total) simp
  ultimately show ?thesis
    using bucket_table_complete [of 3 "[1, 1, 2]" 3 "[5, 5, 5]" "[5, 5, 5]" "- 1"
        "replicate 3 (- 1)" "replicate 3 (- 1)"]
    by simp
qed

section \<open>Claims about whole simulation steps\<close>

text \<open>
  C1 says that one BruteForce step and one GridIndirect step from the same population
  give the same velocities and positions within \<open>10\<^sup>-\<^sup>4\<close>. The code does not do that.
  Agents are binned by the shifted coordinate \<open>floor(u - 0.5)\<close> and the search visits
  only the offsets \<open>{0, 1}\<close> from the agent's own shifted coordinate, so a neighbour
  whose shifted coordinate is one lower is never visited. Two agents at rest at
  \<open>x = -4\<close> and \<open>x = -6\<close>, two units apart and so within every rule distance, with both
  bucket tables freshly holding the sentinel: the brute-force step gives agent 0 the
  velocity \<open>0.19\<close> along \<open>x\<close>, the grid step leaves it at rest.
\<close>

theorem grid_misses_neighbor:
  "\<exists>sb sg. stepSimulationNaive (1 / 5) (initSimulation 2 mem2) = Inr sb \<and>
     stepSimulationScatteredGrid (1 / 5) (initSimulation 2 mem2) = Inr sg \<and>
     dev_vel1 sb = [Vec3 (19 / 100) 0 0, Vec3 (- 19 / 100) 0 0] \<and>
     dev_vel1 sg = [Vec3 0 0 0, Vec3 (- 19 / 100) 0 0] \<and>
     dev_pos sb = [Vec3 (- 1981 / 500) 0 0, Vec3 (- 3019 / 500) 0 0] \<and>
     dev_pos sg = [Vec3 (- 4) 0 0, Vec3 (- 3019 / 500) 0 0] \<and>
     1 / 10000 < \<bar>vx (dev_vel1 sb ! 0) - vx (dev_vel1 sg ! 0)\<bar> \<and>
     1 / 10000 < \<bar>vx (dev_pos sb ! 0) - vx (dev_pos sg ! 0)\<bar> \<and>
     distance (dev_pos (initSimulation 2 mem2) ! 0) (dev_pos (initSimulation 2 mem2) ! 1)
       < rule2Distance"
  by (rule exI, rule exI, intro conjI, rule two_agents_naive_step, rule two_agents_scattered_step)
    (simp_all add: dev_pos_two_agents distance_less_iff config_defs vec_defs)

text \<open>
  C2 says that every grid step resets both bucket tables to the empty sentinel before
  the boundary detection, so that a cell without occupants is marked empty. The code
  never launches \<^verbatim>\<open>kernResetIntBuffer\<close>. One agent that moves from cell 5070 to cell
  5071 between two steps: after the second step cell 5070 has no occupant and its
  entries still hold the range \<open>[0, 1)\<close> of the first step.
\<close>

theorem stale_bucket_after_two_steps:
  "\<exists>s1 s2. stepSimulationScatteredGrid (1 / 5) (initSimulation 1 mem1) = Inr s1 \<and>
     stepSimulationScatteredGrid (1 / 5) s1 = Inr s2 \<and>
     dev_particleGridIndices s1 = [5070] \<and>
     dev_particleGridIndices s2 = [5071] \<and>
     dev_gridCellStartIndices s2 ! 5070 = 0 \<and> dev_gridCellEndIndices s2 ! 5070 = 1"
  by (rule exI, rule exI, intro conjI, rule one_agent_first_step, rule one_agent_second_step) simp_all

text \<open>
  C4: on any state whose buffers have the sizes of \<^verbatim>\<open>initSimulation\<close>, one GridCoherent
  step and one GridIndirect step leave the same unordered multiset of (position,
  velocity) pairs, or fail with the same error.
\<close>

theorem coherent_matches_scattered:
  assumes "allocated s"
  shows "outcome (stepSimulationCoherentGrid dt s) = outcome (stepSimulationScatteredGrid dt s)"
proof -
  let ?N = "numObjects s"
  let ?R = "gridSideCount s"
  let ?gmin = "gridMinimum s"
  let ?icw = "gridInverseCellWidth s"
  let ?cw = "gridCellWidth s"
  from assms have len: "length (dev_pos s) = ?N" "length (dev_pos2 s) = ?N"
    "length (dev_vel1 s) = ?N" "length (dev_vel2 s) = ?N"
    "length (dev_particleArrayIndices s) = ?N" "length (dev_particleGridIndices s) = ?N"
    by (simp_all add: allocated_def)
  from kernComputeIndices_identity [OF len(1,5,6)]
  obtain G where ci: "kernComputeIndices ?N ?R ?gmin ?icw (dev_pos s)
      (dev_particleArrayIndices s, dev_particleGridIndices s) = Inr (map int [0..<?N], G)"
    and G: "length G = ?N"
    by blast
  from sort_by_key_isPermutation [OF G refl]
  obtain G' P where sk: "sort_by_key ?N G (map int [0..<?N]) = Inr (G', P)"
    and P: "isPermutation ?N P"
    by blast
  show ?thesis
  proof (cases "kernIdentifyCellStartEnd ?N G'
      (dev_gridCellStartIndices s, dev_gridCellEndIndices s)")
    case (Inl e)
    then show ?thesis
      by (simp add: stepSimulationCoherentGrid_def stepSimulationScatteredGrid_def ci sk outcome_def)
  next
    case (Inr tables)
    obtain st en where tables: "tables = (st, en)"
      by (cases tables) auto
    note ra = kernRearrangeArray_permuted [OF P len(1,3,2,4)]
    let ?S = "kernUpdateVelNeighborSearchScattered ?N ?R ?gmin ?icw ?cw st en P
             (dev_pos s) (dev_vel1 s) (dev_vel2 s)"
    let ?C = "kernUpdateVelNeighborSearchCoherent ?N ?R ?gmin ?icw ?cw st en
             (permuted P (dev_pos s)) (permuted P (dev_vel1 s)) (dev_vel1 s)"
    from grid_launch_related [OF P len(1,3,4,3) le_refl, of ?R ?gmin ?icw ?cw st en]
    consider (err) e where "?S = Inl e" "?C = Inl e"
      | (ok) b1 b2 where "?S = Inr b1" "?C = Inr b2" "length b1 = ?N" "length b2 = ?N"
        "\<forall>i<?N. b2 ! i = b1 ! nat (P ! i)"
      unfolding kernUpdateVelNeighborSearchScattered_eq kernUpdateVelNeighborSearchCoherent_eq
      by blast
    then show ?thesis
    proof cases
      case err
      then show ?thesis
        by (simp add: stepSimulationCoherentGrid_def stepSimulationScatteredGrid_def ci sk Inr
            tables ra outcome_def)
    next
      case ok
      note lenP = isPermutation_length [OF P]
      from kernUpdatePos_eq [of ?N "dev_pos s" b1 dt] len(1) ok(3)
      obtain posS where posS: "kernUpdatePos ?N dt (dev_pos s) b1 = Inr posS"
        "length posS = ?N" "\<forall>i<?N. posS ! i = integrate dt (dev_pos s ! i) (b1 ! i)"
        by auto
      from kernUpdatePos_eq [of ?N "permuted P (dev_pos s)" b2 dt] lenP ok(4)
      obtain posC where posC: "kernUpdatePos ?N dt (permuted P (dev_pos s)) b2 = Inr posC"
        "length posC = ?N"
        "\<forall>i<?N. posC ! i = integrate dt (permuted P (dev_pos s) ! i) (b2 ! i)"
        by auto
      have "zip posC b2 = permuted P (zip posS b1)"
      proof (rule nth_equalityI)
        show "length (zip posC b2) = length (permuted P (zip posS b1))"
          by (simp add: posC ok lenP)
      next
        fix i
        assume "i < length (zip posC b2)"
        then have i: "i < ?N"
          by (simp add: posC ok)
        from isPermutation_range [OF P i] have k: "nat (P ! i) < ?N"
          by (simp add: nat_less_iff)
        from i k show "zip posC b2 ! i = permuted P (zip posS b1) ! i"
          by (simp add: posC posS ok lenP nth_permuted)
      qed
      moreover have "mset (permuted P (zip posS b1)) = mset (zip posS b1)"
        by (rule mset_permuted [OF P]) (simp add: posS ok)
      ultimately have "mset (zip posC b2) = mset (zip posS b1)"
        by simp
      with ok posS posC show ?thesis
        by (simp add: stepSimulationCoherentGrid_def stepSimulationScatteredGrid_def ci sk Inr
            tables ra outcome_def)
    qed
  qed
qed

theorem coherent_matches_scattered_witness:
  "allocated (initSimulation 2 mem2) \<and>
   outcome (stepSimulationCoherentGrid (1 / 5) (initSimulation 2 mem2)) =
     outcome (stepSimulationScatteredGrid (1 / 5) (initSimulation 2 mem2)) \<and>
   outcome (stepSimulationCoherentGrid (1 / 5) (initSimulation 2 mem2)) =
     Inr {#(Vec3 (- 4) 0 0, Vec3 0 0 0), (Vec3 (- 3019 / 500) 0 0, Vec3 (- 19 / 100) 0 0)#}"
proof -
  have "outcome (stepSimulationScatteredGrid (1 / 5) (initSimulation 2 mem2)) =
     Inr {#(Vec3 (- 4) 0 0, Vec3 0 0 0), (Vec3 (- 3019 / 500) 0 0, Vec3 (- 19 / 100) 0 0)#}"
    unfolding two_agents_scattered_step by (simp add: outcome_def)
  with coherent_matches_scattered [OF allocated_two_agents, of "1 / 5"] allocated_two_agents
  show ?thesis
    by simp
qed

end
